theory Spec2Isabelle
  imports Complex_Main
begin

section \<open>Numbers, vectors and the shared state\<close>

text \<open>
  The simulation core of the game lives in \<^verbatim>\<open>js/main.js\<close> (module-level variables and the
  per-frame functions), the \<^verbatim>\<open>ParticleSystem\<close> class and the \<^verbatim>\<open>GameStateManager\<close> class.
  JavaScript numbers are modelled as exact real numbers; frame counters, particle counts and
  object identities are natural numbers, score and health are integers.  Rounding of
  doubles is outside the model.

  A \<^verbatim>\<open>THREE.Vector3\<close> is a record of three reals.
\<close>

record vec3 =
  vx :: real
  vy :: real
  vz :: real

definition vec :: "real \<Rightarrow> real \<Rightarrow> real \<Rightarrow> vec3" where
  "vec a b c = \<lparr>vx = a, vy = b, vz = c\<rparr>"

definition addV :: "vec3 \<Rightarrow> vec3 \<Rightarrow> vec3" where
  "addV a b = \<lparr>vx = vx a + vx b, vy = vy a + vy b, vz = vz a + vz b\<rparr>"

definition subVectors :: "vec3 \<Rightarrow> vec3 \<Rightarrow> vec3" where
  "subVectors a b = \<lparr>vx = vx a - vx b, vy = vy a - vy b, vz = vz a - vz b\<rparr>"

definition multiplyScalar :: "vec3 \<Rightarrow> real \<Rightarrow> vec3" where
  "multiplyScalar a k = \<lparr>vx = vx a * k, vy = vy a * k, vz = vz a * k\<rparr>"

definition lengthSq :: "vec3 \<Rightarrow> real" where
  "lengthSq a = vx a * vx a + vy a * vy a + vz a * vz a"

definition lengthV :: "vec3 \<Rightarrow> real" where
  "lengthV a = sqrt (lengthSq a)"

text \<open>\<^verbatim>\<open>normalize()\<close> is \<^verbatim>\<open>divideScalar(length() || 1)\<close>: the zero vector stays zero.\<close>

definition normalizeV :: "vec3 \<Rightarrow> vec3" where
  "normalizeV a = multiplyScalar a (1 / (if lengthV a = 0 then 1 else lengthV a))"

definition distanceTo :: "vec3 \<Rightarrow> vec3 \<Rightarrow> real" where
  "distanceTo a b = lengthV (subVectors a b)"

text \<open>\<^verbatim>\<open>THREE.MathUtils.lerp(x, y, t) = (1 - t) * x + t * y\<close>.\<close>

definition lerp :: "real \<Rightarrow> real \<Rightarrow> real \<Rightarrow> real" where
  "lerp a b t = (1 - t) * a + t * b"

text \<open>\<^verbatim>\<open>array.splice(i, 1)\<close>: drop the element at index \<open>i\<close>, shifting the tail down.\<close>

definition splice1 :: "nat \<Rightarrow> 'a list \<Rightarrow> 'a list" where
  "splice1 i xs = take i xs @ drop (Suc i) xs"

text \<open>
  \<^verbatim>\<open>Array.prototype.forEach\<close>: the length is read once, before the first call; the index then
  runs from 0 to that length, and an index that is no longer present in the array (because the
  callback spliced elements out) is passed over without a call.  The callback receives the
  index and reads the element from the current array.
\<close>

fun forEach_from :: "('s \<Rightarrow> nat) \<Rightarrow> (nat \<Rightarrow> 's \<Rightarrow> 's) \<Rightarrow> nat \<Rightarrow> nat \<Rightarrow> 's \<Rightarrow> 's" where
  "forEach_from len cb k 0 s = s"
| "forEach_from len cb k (Suc m) s =
     forEach_from len cb (Suc k) m (if k < len s then cb k s else s)"

definition forEach :: "('s \<Rightarrow> nat) \<Rightarrow> (nat \<Rightarrow> 's \<Rightarrow> 's) \<Rightarrow> 's \<Rightarrow> 's" where
  "forEach len cb s = forEach_from len cb 0 (len s) s"

subsection \<open>Data model\<close>

text \<open>
  Particle settings (one profile of \<^verbatim>\<open>particleTypes\<close>, merged with the caller's options).
  The parallel attribute arrays of an emitter are one list of particles; \<open>plifetime\<close> is the
  entry of the \<^verbatim>\<open>lifetime\<close> array, the particle's age in frames.
\<close>

record settings =
  s_color :: nat
  s_size :: real
  s_count :: nat
  s_lifetime :: nat
  s_speed :: real
  s_spread :: real
  s_gravity :: real
  s_opacity :: real
  s_fadeRate :: real

record options =
  o_size :: "real option"
  o_count :: "nat option"
  o_lifetime :: "nat option"
  o_oneShot :: "bool option"
  o_emissionRate :: "nat option"

record particle =
  ppos :: vec3
  pvel :: vec3
  pcolor :: vec3
  psize :: real
  plifetime :: nat
  popacity :: real

text \<open>
  An emitter object (\<^verbatim>\<open>particleSystem\<close> in \<^verbatim>\<open>createEmitter\<close>).  \<open>eid\<close> is the identity of the
  object; entities hold it as their reference to the emitter.
\<close>

record emitter =
  eid :: nat
  sysPosition :: vec3
  particles :: "particle list"
  esettings :: settings
  active :: bool
  oneShot :: bool
  emissionRate :: nat
  emissionCounter :: nat

record entity =
  oid :: nat
  position :: vec3
  radius :: real

record sound =
  isPlaying :: bool

record cow = entity +
  rotationY :: real
  isBeingAbducted :: bool
  abductionProgress :: real
  idleTimer :: real
  idleSpeed :: real

record jet = entity +
  speed :: real
  lastFired :: real
  fireRate :: real
  target :: vec3
  engineSound :: "sound option"
  exhaustEmitter :: "nat option"

record missile = entity +
  direction :: vec3
  mspeed :: real
  lifeTime :: nat
  mexhaustEmitter :: "nat option"

datatype gstate = START | PLAYING | PAUSED | GAME_OVER | HELP

datatype obj = Points nat | JetObj nat | MissileObj nat | CowObj nat

text \<open>
  Calls to the external collaborators (sound, screen shake) and the lifecycle calls the
  properties count are recorded, in order, in \<open>events\<close>.
\<close>

datatype event =
    Play string string
  | Stop string string
  | EngineSoundStop nat
  | RemoveEmitter nat
  | ShakeScreen real
  | GameEnded

record keys =
  ArrowUp :: bool
  ArrowDown :: bool
  ArrowLeft :: bool
  ArrowRight :: bool
  Space :: bool
  Shift :: bool
  KeyE :: bool

text \<open>
  All mutable state: the module-level variables of \<^verbatim>\<open>main.js\<close>, the fields of the
  \<^verbatim>\<open>ParticleSystem\<close> and \<^verbatim>\<open>GameStateManager\<close> instances, the scene, and the stream that
  \<^verbatim>\<open>Math.random()\<close> reads from (\<open>rnd\<close> at position \<open>rndIx\<close>).  \<open>nextId\<close> is the identity
  the next created object gets.  \<open>beamBottom\<close> is the world position of the lower end of the
  tractor beam, which the scene graph maintains (\<^verbatim>\<open>tractorBeam.matrixWorld\<close>).

  Calls that only orient or place renderable objects (rotation of the craft and of the jets,
  lights, camera, the position sync of attached emitters through \<^verbatim>\<open>localToWorld\<close>, the
  blinking of the craft after a hit) depend on the matrices of the scene graph and write
  nothing that the simulation reads back; they are not part of the model.
\<close>

record game =
  rnd :: "nat \<Rightarrow> real"
  rndIx :: nat
  nextId :: nat
  scene :: "obj set"
  events :: "event list"
  particleSystems :: "emitter list"
  currentState :: gstate
  score :: int
  health :: int
  highScores :: "int list"
  ufo_position :: vec3
  ufo_radius :: real
  velocity :: vec3
  hoverDirection :: real
  hoverOffset :: real
  keys :: keys
  tractorBeam_visible :: bool
  beamBottom :: vec3
  cows :: "cow list"
  jets :: "jet list"
  missiles :: "missile list"
  lastJetSpawn :: real
  currentSpawnInterval :: real
  gameActive :: bool

definition MAX_SPEED :: real where "MAX_SPEED = 0.5"
definition ACCELERATION :: real where "ACCELERATION = 0.01"
definition DECELERATION :: real where "DECELERATION = 0.98"
definition HOVER_SPEED :: real where "HOVER_SPEED = 0.005"
definition HOVER_HEIGHT :: real where "HOVER_HEIGHT = 0.1"
definition GAME_BOUNDS :: real where "GAME_BOUNDS = 200"
definition BEAM_RANGE :: real where "BEAM_RANGE = 10"
definition BEAM_STRENGTH :: real where "BEAM_STRENGTH = 0.05"
definition JET_SPEED :: real where "JET_SPEED = 0.3"
definition MISSILE_SPEED :: real where "MISSILE_SPEED = 0.5"
definition SPAWN_INTERVAL_BASE :: real where "SPAWN_INTERVAL_BASE = 5000"
definition SPAWN_INTERVAL_MIN :: real where "SPAWN_INTERVAL_MIN = 1000"
definition SPAWN_RATE_INCREASE :: real where "SPAWN_RATE_INCREASE = 0.1"

text \<open>\<^verbatim>\<open>Math.random()\<close>: the next number of the stream.\<close>

definition random :: "game \<Rightarrow> real" where
  "random s = rnd s (rndIx s)"

definition advance :: "nat \<Rightarrow> game \<Rightarrow> game" where
  "advance n s = s\<lparr>rndIx := rndIx s + n\<rparr>"

definition emit :: "event \<Rightarrow> game \<Rightarrow> game" where
  "emit e s = s\<lparr>events := events s @ [e]\<rparr>"

section \<open>The particle engine\<close>

datatype ptype = exhaust | explosion | sparkle | smoke

definition particleTypes :: "ptype \<Rightarrow> settings" where
  "particleTypes t = (case t of
     exhaust \<Rightarrow> \<lparr>s_color = 0x33aaff, s_size = 0.2, s_count = 50, s_lifetime = 30,
                 s_speed = 0.05, s_spread = 0.1, s_gravity = 0.001, s_opacity = 0.7,
                 s_fadeRate = 0.03\<rparr>
   | explosion \<Rightarrow> \<lparr>s_color = 0xff5500, s_size = 0.3, s_count = 100, s_lifetime = 60,
                 s_speed = 0.2, s_spread = 0.8, s_gravity = 0.001, s_opacity = 1.0,
                 s_fadeRate = 0.02\<rparr>
   | sparkle \<Rightarrow> \<lparr>s_color = 0xffff00, s_size = 0.15, s_count = 20, s_lifetime = 20,
                 s_speed = 0.03, s_spread = 0.3, s_gravity = - 0.001, s_opacity = 0.9,
                 s_fadeRate = 0.05\<rparr>
   | smoke \<Rightarrow> \<lparr>s_color = 0x555555, s_size = 0.4, s_count = 30, s_lifetime = 90,
                 s_speed = 0.02, s_spread = 0.2, s_gravity = - 0.0005, s_opacity = 0.5,
                 s_fadeRate = 0.01\<rparr>)"

definition noOptions :: options where
  "noOptions = \<lparr>o_size = None, o_count = None, o_lifetime = None, o_oneShot = None,
                 o_emissionRate = None\<rparr>"

text \<open>\<^verbatim>\<open>{ ...this.particleTypes[type], ...options }\<close>\<close>

definition mergeSettings :: "settings \<Rightarrow> options \<Rightarrow> settings" where
  "mergeSettings st opts = st
     \<lparr>s_size := (case o_size opts of None \<Rightarrow> s_size st | Some v \<Rightarrow> v),
      s_count := (case o_count opts of None \<Rightarrow> s_count st | Some v \<Rightarrow> v),
      s_lifetime := (case o_lifetime opts of None \<Rightarrow> s_lifetime st | Some v \<Rightarrow> v)\<rparr>"

text \<open>\<^verbatim>\<open>new THREE.Color(hex)\<close>: the three bytes of the hex value, scaled to [0, 1].\<close>

definition hexColor :: "nat \<Rightarrow> vec3" where
  "hexColor c = vec (real ((c div 65536) mod 256) / 255) (real ((c div 256) mod 256) / 255)
                    (real (c mod 256) / 255)"

text \<open>
  One turn of the creation loop of \<^verbatim>\<open>createEmitter\<close>; it draws eight random numbers, read
  from the stream \<open>r\<close> at \<open>ix\<close>.
\<close>

definition newParticle :: "settings \<Rightarrow> vec3 \<Rightarrow> (nat \<Rightarrow> real) \<Rightarrow> nat \<Rightarrow> particle" where
  "newParticle st dir r ix =
     (let v0 = normalizeV dir;
          v1 = \<lparr>vx = vx v0 + (r ix - 0.5) * s_spread st,
                vy = vy v0 + (r (ix + 1) - 0.5) * s_spread st,
                vz = vz v0 + (r (ix + 2) - 0.5) * s_spread st\<rparr>;
          v2 = multiplyScalar (normalizeV v1) (s_speed st * (0.5 + r (ix + 3)));
          c0 = hexColor (s_color st);
          c1 = \<lparr>vx = vx c0 + (r (ix + 4) - 0.5) * 0.1,
                vy = vy c0 + (r (ix + 5) - 0.5) * 0.1,
                vz = vz c0 + (r (ix + 6) - 0.5) * 0.1\<rparr>
      in \<lparr>ppos = vec 0 0 0, pvel = v2, pcolor = c1,
          psize = s_size st * (0.7 + r (ix + 7) * 0.6),
          plifetime = 0, popacity = s_opacity st\<rparr>)"

text \<open>
  \<^verbatim>\<open>createEmitter(type, position, direction, options)\<close>; the result is the reference to the
  new emitter.  \<^verbatim>\<open>options.emissionRate || 1\<close> turns a rate of 0 into 1.
\<close>

definition createEmitter :: "ptype \<Rightarrow> vec3 \<Rightarrow> vec3 \<Rightarrow> options \<Rightarrow> game \<Rightarrow> nat \<times> game" where
  "createEmitter t pos dir opts s =
     (let st = mergeSettings (particleTypes t) opts;
          pl = map (\<lambda>i. newParticle st dir (rnd s) (rndIx s + 8 * i)) [0..<s_count st];
          e = \<lparr>eid = nextId s, sysPosition = pos, particles = pl, esettings = st,
               active = True,
               oneShot = (case o_oneShot opts of None \<Rightarrow> False | Some b \<Rightarrow> b),
               emissionRate = (case o_emissionRate opts of None \<Rightarrow> 1
                                | Some k \<Rightarrow> if k = 0 then 1 else k),
               emissionCounter = 0\<rparr>
      in (nextId s,
          s\<lparr>rndIx := rndIx s + 8 * s_count st,
            nextId := Suc (nextId s),
            scene := insert (Points (nextId s)) (scene s),
            particleSystems := particleSystems s @ [e]\<rparr>))"

text \<open>\<^verbatim>\<open>createExplosion(position, size, count)\<close> of the particle system.\<close>

definition ps_createExplosion :: "vec3 \<Rightarrow> real \<Rightarrow> nat \<Rightarrow> game \<Rightarrow> nat \<times> game" where
  "ps_createExplosion pos sz cnt s =
     createEmitter explosion pos (vec 0 1 0)
       (noOptions\<lparr>o_size := Some (0.3 * sz), o_count := Some cnt, o_oneShot := Some True\<rparr>) s"

text \<open>
  \<^verbatim>\<open>createEngineExhaust(object, offset)\<close>; \<open>pos\<close> is the world position of the offset
  (\<^verbatim>\<open>object.localToWorld(offset)\<close>, computed by the scene graph).
\<close>

definition createEngineExhaust :: "vec3 \<Rightarrow> game \<Rightarrow> nat \<times> game" where
  "createEngineExhaust pos s =
     createEmitter exhaust pos (vec 0 0 1) (noOptions\<lparr>o_emissionRate := Some 2\<rparr>) s"

text \<open>
  The body of the particle loop of \<^verbatim>\<open>updateParticles\<close> for one particle; \<open>ps\<close> is the emitter
  with its emission counter already advanced.  A continuous emitter resets a dead particle
  (three random numbers) before moving it.
\<close>

definition updateParticle :: "emitter \<Rightarrow> (nat \<Rightarrow> real) \<Rightarrow> nat \<Rightarrow> particle \<Rightarrow> particle \<times> nat" where
  "updateParticle ps r ix p =
     (let st = esettings ps in
      if plifetime p < s_lifetime st \<or> (\<not> oneShot ps \<and> emissionCounter ps = 0) then
        let reset = (\<not> oneShot ps \<and> plifetime p \<ge> s_lifetime st);
            p1 = (if reset then
                    p\<lparr>ppos := vec 0 0 0, plifetime := 0, popacity := s_opacity st,
                      pvel := \<lparr>vx = vx (pvel p) + (r ix - 0.5) * 0.02,
                               vy = vy (pvel p) + (r (ix + 1) - 0.5) * 0.02,
                               vz = vz (pvel p) + (r (ix + 2) - 0.5) * 0.02\<rparr>\<rparr>
                  else p);
            p2 = p1\<lparr>ppos := addV (ppos p1) (pvel p1)\<rparr>;
            p3 = p2\<lparr>pvel := (pvel p2)\<lparr>vy := vy (pvel p2) - s_gravity st\<rparr>\<rparr>;
            p4 = p3\<lparr>plifetime := Suc (plifetime p3)\<rparr>;
            p5 = (if real (plifetime p4) > real (s_lifetime st) * 0.7 then
                    p4\<lparr>popacity := (if popacity p4 - s_fadeRate st < 0 then 0
                                     else popacity p4 - s_fadeRate st)\<rparr>
                  else p4)
        in (p5, if reset then ix + 3 else ix)
      else (p, ix))"

fun updateParticleList :: "emitter \<Rightarrow> (nat \<Rightarrow> real) \<Rightarrow> nat \<Rightarrow> particle list \<Rightarrow> particle list \<times> nat" where
  "updateParticleList ps r ix [] = ([], ix)"
| "updateParticleList ps r ix (p # rest) =
     (case updateParticle ps r ix p of (p', ix') \<Rightarrow>
        (case updateParticleList ps r ix' rest of (rest', ix'') \<Rightarrow> (p' # rest', ix'')))"

definition updateParticles :: "emitter \<Rightarrow> (nat \<Rightarrow> real) \<Rightarrow> nat \<Rightarrow> emitter \<times> nat" where
  "updateParticles ps r ix =
     (let ps1 = ps\<lparr>emissionCounter := (emissionCounter ps + 1) mod emissionRate ps\<rparr>
      in case updateParticleList ps1 r ix (particles ps1) of
           (pl, ix') \<Rightarrow> (ps1\<lparr>particles := pl\<rparr>, ix'))"

text \<open>The \<^verbatim>\<open>allDead\<close> scan of \<^verbatim>\<open>update\<close>: no entry of the lifetime array is below the limit.\<close>

definition allDead :: "emitter \<Rightarrow> bool" where
  "allDead ps = list_all (\<lambda>p. \<not> plifetime p < s_lifetime (esettings ps)) (particles ps)"

text \<open>
  One turn of the loop of \<^verbatim>\<open>update\<close>, at index \<open>i\<close>.  The loop runs from the last index
  down to 0, so \<open>i\<close> is always inside the array; the outer test covers the remaining case.
\<close>

definition update_at :: "nat \<Rightarrow> game \<Rightarrow> game" where
  "update_at i s =
     (if i < length (particleSystems s) then
        let ps = particleSystems s ! i in
        if active ps then
          (case updateParticles ps (rnd s) (rndIx s) of (ps', ix') \<Rightarrow>
             let s1 = s\<lparr>rndIx := ix', particleSystems := (particleSystems s)[i := ps']\<rparr>
             in if oneShot ps' \<and> allDead ps' then
                  s1\<lparr>scene := scene s1 - {Points (eid ps')},
                     particleSystems := splice1 i (particleSystems s1)\<rparr>
                else s1)
        else s
      else s)"

fun update_down :: "nat \<Rightarrow> game \<Rightarrow> game" where
  "update_down 0 s = s"
| "update_down (Suc i) s = update_down i (update_at i s)"

definition update :: "game \<Rightarrow> game" where
  "update s = update_down (length (particleSystems s)) s"

text \<open>\<^verbatim>\<open>particleSystems.indexOf(emitter)\<close>, by object identity.\<close>

fun indexOf :: "nat \<Rightarrow> emitter list \<Rightarrow> nat option" where
  "indexOf i [] = None"
| "indexOf i (e # es) =
     (if eid e = i then Some 0 else (case indexOf i es of None \<Rightarrow> None | Some k \<Rightarrow> Some (Suc k)))"

text \<open>
  \<^verbatim>\<open>stopEmitter\<close>, \<^verbatim>\<open>startEmitter\<close>, \<^verbatim>\<open>removeEmitter\<close>, \<^verbatim>\<open>clear\<close>.  The argument is a reference
  or null (\<open>None\<close>).
\<close>

definition setActive :: "bool \<Rightarrow> nat \<Rightarrow> emitter \<Rightarrow> emitter" where
  "setActive b i e = (if eid e = i then e\<lparr>active := b\<rparr> else e)"

definition stopEmitter :: "nat option \<Rightarrow> game \<Rightarrow> game" where
  "stopEmitter r s = (case r of None \<Rightarrow> s
     | Some i \<Rightarrow> s\<lparr>particleSystems := map (setActive False i) (particleSystems s)\<rparr>)"

definition startEmitter :: "nat option \<Rightarrow> game \<Rightarrow> game" where
  "startEmitter r s = (case r of None \<Rightarrow> s
     | Some i \<Rightarrow> s\<lparr>particleSystems := map (setActive True i) (particleSystems s)\<rparr>)"

definition removeEmitter :: "nat option \<Rightarrow> game \<Rightarrow> game" where
  "removeEmitter r s = (case r of None \<Rightarrow> s
     | Some i \<Rightarrow>
        (case indexOf i (particleSystems s) of None \<Rightarrow> s
         | Some k \<Rightarrow> s\<lparr>scene := scene s - {Points i},
                       particleSystems := splice1 k (particleSystems s)\<rparr>))"

definition clear :: "game \<Rightarrow> game" where
  "clear s = s\<lparr>scene := scene s - Points ` eid ` set (particleSystems s),
              particleSystems := []\<rparr>"

section \<open>The game state manager\<close>

text \<open>
  \<^verbatim>\<open>saveHighScore\<close> appends the score, sorts highest first and keeps five entries (the date
  of an entry is not modelled).
\<close>

definition saveHighScore :: "int \<Rightarrow> game \<Rightarrow> game" where
  "saveHighScore sc s = s\<lparr>highScores := take 5 (rev (sort (highScores s @ [sc])))\<rparr>"

definition changeState :: "gstate \<Rightarrow> game \<Rightarrow> game" where
  "changeState st s = s\<lparr>currentState := st\<rparr>"

definition endGame :: "game \<Rightarrow> game" where
  "endGame s = changeState GAME_OVER (saveHighScore (score s) (emit GameEnded s))"

definition updateScore :: "int \<Rightarrow> game \<Rightarrow> game" where
  "updateScore n s = s\<lparr>score := n\<rparr>"

definition updateHealth :: "int \<Rightarrow> game \<Rightarrow> game" where
  "updateHealth n s = (let s1 = s\<lparr>health := n\<rparr> in if health s1 \<le> 0 then endGame s1 else s1)"

definition isGameActive :: "game \<Rightarrow> bool" where
  "isGameActive s = (currentState s = PLAYING)"

section \<open>The entities of \<^verbatim>\<open>main.js\<close>\<close>

definition createExplosion :: "vec3 \<Rightarrow> nat \<Rightarrow> game \<Rightarrow> game" where
  "createExplosion pos sz s =
     emit (ShakeScreen (real sz * 0.2))
       (emit (Play ''ufo'' ''explosion'')
          (snd (ps_createExplosion pos (real sz) (sz * 50) s)))"

definition damagePlayer :: "game \<Rightarrow> game" where
  "damagePlayer s =
     (let s1 = updateHealth (health s - 1) s;
          s2 = emit (ShakeScreen 0.5) s1;
          s3 = emit (Play ''ufo'' ''explosion'') s2
      in if health s3 \<le> 0 then endGame (createExplosion (ufo_position s3) 5 s3) else s3)"

subsection \<open>Tractor beam\<close>

definition sparkleOptions :: "nat \<Rightarrow> options" where
  "sparkleOptions n = noOptions\<lparr>o_oneShot := Some True, o_count := Some n\<rparr>"

text \<open>The callback of \<^verbatim>\<open>cows.forEach\<close> in \<^verbatim>\<open>updateTractorBeam\<close>, at index \<open>k\<close>.\<close>

definition beamCow :: "nat \<Rightarrow> game \<Rightarrow> game" where
  "beamCow k s =
     (let cow = cows s ! k; u = ufo_position s in
      if \<not> isBeingAbducted cow then
        let horizontalDist = sqrt ((vx (position cow) - vx u) * (vx (position cow) - vx u)
                                 + (vz (position cow) - vz u) * (vz (position cow) - vz u))
        in if horizontalDist < BEAM_RANGE / 2 \<and> vy (position cow) < vy u then
             emit (Play ''cow'' ''moo'')
               (s\<lparr>cows := (cows s)[k := cow\<lparr>isBeingAbducted := True, abductionProgress := 0\<rparr>]\<rparr>)
           else s
      else
        let progress = abductionProgress cow + BEAM_STRENGTH;
            targetY = vy u - 1;
            lerpFactor = progress;
            y' = lerp (vy (position cow)) targetY (lerpFactor * 0.05);
            x' = lerp (vx (position cow)) (vx u) (lerpFactor * 0.05);
            z' = lerp (vz (position cow)) (vz u) (lerpFactor * 0.05);
            cow' = cow\<lparr>abductionProgress := progress, position := vec x' y' z',
                       rotationY := rotationY cow + 0.05\<rparr>;
            s1 = s\<lparr>cows := (cows s)[k := cow']\<rparr>
        in if distanceTo (position cow') u < 3 then
             let s2 = emit (Play ''cow'' ''abduction_complete'') s1;
                 s3 = snd (createEmitter sparkle (position cow') (vec 0 1 0) (sparkleOptions 30) s2);
                 s4 = s3\<lparr>scene := scene s3 - {CowObj (oid cow')}, cows := splice1 k (cows s3)\<rparr>;
                 s5 = updateScore (score s4 + 100) s4
             in s5\<lparr>currentSpawnInterval :=
                      max SPAWN_INTERVAL_MIN (currentSpawnInterval s5 * (1 - SPAWN_RATE_INCREASE))\<rparr>
           else s1)"

definition updateTractorBeam :: "game \<Rightarrow> game" where
  "updateTractorBeam s =
     (let wasActive = tractorBeam_visible s;
          s1 = s\<lparr>tractorBeam_visible := KeyE (keys s)\<rparr>;
          s2 = (if \<not> wasActive \<and> tractorBeam_visible s1 then emit (Play ''ufo'' ''tractor_beam'') s1
                else if wasActive \<and> \<not> tractorBeam_visible s1 then emit (Stop ''ufo'' ''tractor_beam'') s1
                else s1)
      in if tractorBeam_visible s2 then
           let beamPosition = beamBottom s2;
               s3 = (if random s2 < 0.2 then
                       let sparklePos = vec (vx beamPosition + (rnd s2 (rndIx s2 + 1) - 0.5) * 3)
                                            (vy beamPosition + rnd s2 (rndIx s2 + 2) * 8)
                                            (vz beamPosition + (rnd s2 (rndIx s2 + 3) - 0.5) * 3)
                       in snd (createEmitter sparkle sparklePos (vec 0 1 0) (sparkleOptions 5)
                                 (advance 4 s2))
                     else advance 1 s2)
           in forEach (\<lambda>t. length (cows t)) beamCow s3
         else s2)"

subsection \<open>The craft\<close>

text \<open>
  \<^verbatim>\<open>updateUFO\<close> in two parts.  \<open>moveUFO\<close> is its movement part: acceleration from the held keys,
  drag, speed clamp, integration of the position, floor clamp, boundary bounce and hover.
  \<open>updateUFO\<close> then runs the tractor beam and starts or stops the engine sound.
\<close>

definition moveUFO :: "game \<Rightarrow> game" where
  "moveUFO s =
     (let k = keys s;
          az = (if ArrowDown k then ACCELERATION else 0) - (if ArrowUp k then ACCELERATION else 0);
          ax = (if ArrowRight k then ACCELERATION else 0) - (if ArrowLeft k then ACCELERATION else 0);
          ay = (if Space k then ACCELERATION else 0) - (if Shift k then ACCELERATION else 0);
          v1 = addV (velocity s) (vec ax ay az);
          v2 = multiplyScalar v1 DECELERATION;
          v3 = (if lengthV v2 > MAX_SPEED then multiplyScalar (normalizeV v2) MAX_SPEED else v2);
          p1 = addV (ufo_position s) v3;
          below = (vy p1 < 5);
          p2 = (if below then p1\<lparr>vy := 5\<rparr> else p1);
          v4 = (if below then v3\<lparr>vy := 0\<rparr> else v3);
          outX = (\<bar>vx p2\<bar> > GAME_BOUNDS);
          p3 = (if outX then p2\<lparr>vx := sgn (vx p2) * GAME_BOUNDS\<rparr> else p2);
          v5 = (if outX then v4\<lparr>vx := vx v4 * (- 0.5)\<rparr> else v4);
          outZ = (\<bar>vz p3\<bar> > GAME_BOUNDS);
          p4 = (if outZ then p3\<lparr>vz := sgn (vz p3) * GAME_BOUNDS\<rparr> else p3);
          v6 = (if outZ then v5\<lparr>vz := vz v5 * (- 0.5)\<rparr> else v5);
          ho = hoverOffset s + HOVER_SPEED * hoverDirection s;
          hd = (if \<bar>ho\<bar> > HOVER_HEIGHT then hoverDirection s * (- 1) else hoverDirection s);
          p5 = p4\<lparr>vy := vy p4 + HOVER_SPEED * hd\<rparr>
      in s\<lparr>velocity := v6, ufo_position := p5, hoverOffset := ho, hoverDirection := hd\<rparr>)"

definition updateUFO :: "game \<Rightarrow> game" where
  "updateUFO s =
     (let s1 = updateTractorBeam (moveUFO s)
      in if lengthV (velocity s1) > 0.05 then emit (Play ''ufo'' ''engine_loop'') s1
         else if lengthV (velocity s1) < 0.02 then emit (Stop ''ufo'' ''engine_loop'') s1
         else s1)"

subsection \<open>Creatures\<close>

text \<open>
  One turn of the loop of \<^verbatim>\<open>createCows\<close> (five random numbers: x, z, rotation, idle timer,
  idle speed) and the loop itself.
\<close>

definition createCow :: "game \<Rightarrow> game" where
  "createCow s =
     (let x = rnd s (rndIx s) * GAME_BOUNDS * 2 - GAME_BOUNDS;
          z = rnd s (rndIx s + 1) * GAME_BOUNDS * 2 - GAME_BOUNDS;
          y = sin (x * 0.01) * cos (z * 0.01) * 10;
          cow = \<lparr>oid = nextId s, position = vec x (y + 1) z, radius = 1.5,
                 rotationY = rnd s (rndIx s + 2) * pi * 2,
                 isBeingAbducted = False, abductionProgress = 0,
                 idleTimer = rnd s (rndIx s + 3) * pi * 2,
                 idleSpeed = 0.01 + rnd s (rndIx s + 4) * 0.01\<rparr>
      in s\<lparr>rndIx := rndIx s + 5, nextId := Suc (nextId s),
           scene := insert (CowObj (nextId s)) (scene s), cows := cows s @ [cow]\<rparr>)"

definition COW_COUNT :: nat where "COW_COUNT = 15"

definition createCows :: "game \<Rightarrow> game" where
  "createCows s = (createCow ^^ COW_COUNT) s"

text \<open>The callback of \<^verbatim>\<open>updateCows\<close>.\<close>

definition idleCow :: "nat \<Rightarrow> game \<Rightarrow> game" where
  "idleCow k s =
     (let cow = cows s ! k in
      if \<not> isBeingAbducted cow then
        let timer = idleTimer cow + idleSpeed cow;
            headBob = sin timer * 0.05;
            cow1 = cow\<lparr>idleTimer := timer,
                       position := (position cow)\<lparr>vy := vy (position cow) + headBob\<rparr>\<rparr>
        in if random s < 0.005 then
             (advance 2 s)\<lparr>cows := (cows s)[k := cow1\<lparr>rotationY :=
                                rotationY cow1 + (rnd s (rndIx s + 1) - 0.5) * 0.5\<rparr>]\<rparr>
           else (advance 1 s)\<lparr>cows := (cows s)[k := cow1]\<rparr>
      else s)"

definition updateCows :: "game \<Rightarrow> game" where
  "updateCows s = forEach (\<lambda>t. length (cows t)) idleCow s"

subsection \<open>Projectiles\<close>

definition createMissileModel :: "vec3 \<Rightarrow> vec3 \<Rightarrow> game \<Rightarrow> game" where
  "createMissileModel pos dir s =
     (let m = nextId s;
          s1 = s\<lparr>nextId := Suc m\<rparr>;
          (e, s2) = createEmitter exhaust (vec 0 0 0) (vec 0 0 1)
                      (noOptions\<lparr>o_size := Some 0.1, o_count := Some 20,
                                 o_emissionRate := Some 1\<rparr>) s1;
          missile = \<lparr>oid = m, position = pos, radius = 0.5, direction = normalizeV dir,
                     mspeed = MISSILE_SPEED, lifeTime = 0, mexhaustEmitter = Some e\<rparr>;
          s3 = emit (Play ''jet'' ''missile'') s2
      in s3\<lparr>scene := insert (MissileObj m) (scene s3), missiles := missiles s3 @ [missile]\<rparr>)"

text \<open>
  The release sequence of a missile: \<^verbatim>\<open>removeEmitter\<close> if the missile has an emitter, then
  \<^verbatim>\<open>scene.remove\<close> and \<^verbatim>\<open>missiles.splice(index, 1)\<close>.
\<close>

definition releaseMissileEmitter :: "missile \<Rightarrow> game \<Rightarrow> game" where
  "releaseMissileEmitter m s = (case mexhaustEmitter m of None \<Rightarrow> s
     | Some e \<Rightarrow> removeEmitter (Some e) (emit (RemoveEmitter e) s))"

definition removeMissileAt :: "nat \<Rightarrow> missile \<Rightarrow> game \<Rightarrow> game" where
  "removeMissileAt k m s =
     s\<lparr>scene := scene s - {MissileObj (oid m)}, missiles := splice1 k (missiles s)\<rparr>"

text \<open>The callback of \<^verbatim>\<open>missiles.forEach\<close> in \<^verbatim>\<open>updateMissiles\<close>.\<close>

definition moveMissile :: "nat \<Rightarrow> game \<Rightarrow> game" where
  "moveMissile k s =
     (let m = missiles s ! k;
          m1 = m\<lparr>position := addV (position m) (multiplyScalar (direction m) (mspeed m))\<rparr>;
          m2 = m1\<lparr>lifeTime := Suc (lifeTime m1)\<rparr>;
          s1 = s\<lparr>missiles := (missiles s)[k := m2]\<rparr>
      in if distanceTo (position m2) (ufo_position s1) > GAME_BOUNDS * 1.5 \<or> lifeTime m2 > 500
         then removeMissileAt k m2 (releaseMissileEmitter m2 s1)
         else s1)"

definition updateMissiles :: "game \<Rightarrow> game" where
  "updateMissiles s = forEach (\<lambda>t. length (missiles t)) moveMissile s"

subsection \<open>Attackers\<close>

text \<open>
  \<^verbatim>\<open>createJetModel\<close> followed by the placement of \<^verbatim>\<open>spawnJet\<close>.  The jet draws its speed and
  fire rate, creates its exhaust emitter (at the offset, the new jet still being at the
  origin) and its looping engine sound, which it starts; then angle and altitude are drawn.
\<close>

definition spawnJet :: "game \<Rightarrow> game" where
  "spawnJet s =
     (let j = nextId s;
          sp = JET_SPEED * (0.8 + rnd s (rndIx s) * 0.4);
          fr = 3000 + rnd s (rndIx s + 1) * 2000;
          (e, s1) = createEngineExhaust (vec (- 2) 0 0) ((advance 2 s)\<lparr>nextId := Suc j\<rparr>);
          angle = rnd s1 (rndIx s1) * pi * 2;
          dist = GAME_BOUNDS * 1.2;
          y = vy (ufo_position s1) + (rnd s1 (rndIx s1 + 1) * 10 - 5);
          jet = \<lparr>oid = j, position = vec (cos angle * dist) y (sin angle * dist), radius = 2.5,
                 speed = sp, lastFired = 0, fireRate = fr, target = vec 0 0 0,
                 engineSound = Some \<lparr>isPlaying = True\<rparr>, exhaustEmitter = Some e\<rparr>;
          s2 = advance 2 s1
      in s2\<lparr>scene := insert (JetObj j) (scene s2), jets := jets s2 @ [jet]\<rparr>)"

text \<open>
  The release sequence of a jet, the same in \<^verbatim>\<open>updateJets\<close> and \<^verbatim>\<open>checkCollisions\<close>: stop the
  engine sound if there is one and it is playing, \<^verbatim>\<open>removeEmitter\<close> if the jet has an emitter,
  then \<^verbatim>\<open>scene.remove\<close> and \<^verbatim>\<open>jets.splice(index, 1)\<close>.
\<close>

definition stopEngineSound :: "jet \<Rightarrow> game \<Rightarrow> game" where
  "stopEngineSound j s = (case engineSound j of None \<Rightarrow> s
     | Some es \<Rightarrow> if isPlaying es then emit (EngineSoundStop (oid j)) s else s)"

definition releaseJetEmitter :: "jet \<Rightarrow> game \<Rightarrow> game" where
  "releaseJetEmitter j s = (case exhaustEmitter j of None \<Rightarrow> s
     | Some e \<Rightarrow> removeEmitter (Some e) (emit (RemoveEmitter e) s))"

definition removeJetAt :: "nat \<Rightarrow> jet \<Rightarrow> game \<Rightarrow> game" where
  "removeJetAt k j s = s\<lparr>scene := scene s - {JetObj (oid j)}, jets := splice1 k (jets s)\<rparr>"

text \<open>The callback of \<^verbatim>\<open>jets.forEach\<close> in \<^verbatim>\<open>updateJets\<close>; \<open>now\<close> is \<^verbatim>\<open>Date.now()\<close>.\<close>

definition moveJet :: "real \<Rightarrow> nat \<Rightarrow> game \<Rightarrow> game" where
  "moveJet now k s =
     (let jet = jets s ! k;
          dir = normalizeV (subVectors (ufo_position s) (position jet));
          jet1 = jet\<lparr>target := ufo_position s,
                     position := addV (position jet) (multiplyScalar dir (speed jet))\<rparr>;
          fire = (now - lastFired jet1 > fireRate jet1);
          s1 = (if fire then
                  createMissileModel (position jet1)
                    (subVectors (ufo_position s) (position jet1)) s
                else s);
          jet2 = (if fire then jet1\<lparr>lastFired := now\<rparr> else jet1);
          s2 = s1\<lparr>jets := (jets s1)[k := jet2]\<rparr>
      in if distanceTo (position jet2) (ufo_position s2) > GAME_BOUNDS * 1.5
         then removeJetAt k jet2 (releaseJetEmitter jet2 (stopEngineSound jet2 s2))
         else s2)"

definition updateJets :: "real \<Rightarrow> game \<Rightarrow> game" where
  "updateJets now s =
     (let s1 = (if now - lastJetSpawn s > currentSpawnInterval s
                then (spawnJet s)\<lparr>lastJetSpawn := now\<rparr> else s)
      in forEach (\<lambda>t. length (jets t)) (moveJet now) s1)"

subsection \<open>Collisions\<close>

definition hitJet :: "nat \<Rightarrow> game \<Rightarrow> game" where
  "hitJet k s =
     (let jet = jets s ! k in
      if distanceTo (position jet) (ufo_position s) < ufo_radius s + radius jet then
        damagePlayer
          (removeJetAt k jet
             (releaseJetEmitter jet (stopEngineSound jet (createExplosion (position jet) 3 s))))
      else s)"

definition hitMissile :: "nat \<Rightarrow> game \<Rightarrow> game" where
  "hitMissile k s =
     (let m = missiles s ! k in
      if distanceTo (position m) (ufo_position s) < ufo_radius s + radius m then
        damagePlayer
          (removeMissileAt k m (releaseMissileEmitter m (createExplosion (position m) 2 s)))
      else s)"

definition checkCollisions :: "game \<Rightarrow> game" where
  "checkCollisions s =
     forEach (\<lambda>t. length (missiles t)) hitMissile (forEach (\<lambda>t. length (jets t)) hitJet s)"

subsection \<open>The frame and the restart\<close>

text \<open>\<^verbatim>\<open>animate\<close>: the game logic of one frame, run only in the \<^verbatim>\<open>PLAYING\<close> state.\<close>

definition animate :: "real \<Rightarrow> game \<Rightarrow> game" where
  "animate now s =
     (if isGameActive s then
        checkCollisions (update (updateMissiles (updateJets now (updateCows (updateUFO s)))))
      else s)"

text \<open>
  \<^verbatim>\<open>startGame\<close> of \<^verbatim>\<open>main.js\<close>: both registries are released entry by entry (a traversal
  without removal) and then replaced by empty arrays.
\<close>

definition startGame :: "real \<Rightarrow> game \<Rightarrow> game" where
  "startGame now s =
     (let s1 = s\<lparr>gameActive := True, ufo_position := vec 0 20 0, velocity := vec 0 0 0\<rparr>;
          s2 = fold (\<lambda>j t. (releaseJetEmitter j (stopEngineSound j t))
                              \<lparr>scene := scene (releaseJetEmitter j (stopEngineSound j t))
                                         - {JetObj (oid j)}\<rparr>) (jets s1) s1;
          s3 = s2\<lparr>jets := []\<rparr>;
          s4 = fold (\<lambda>m t. (releaseMissileEmitter m t)
                              \<lparr>scene := scene (releaseMissileEmitter m t) - {MissileObj (oid m)}\<rparr>)
                 (missiles s3) s3;
          s5 = s4\<lparr>missiles := [], lastJetSpawn := now,
                  currentSpawnInterval := SPAWN_INTERVAL_BASE\<rparr>;
          s6 = (if length (cows s5) = 0 then createCows s5 else s5)
      in emit (Play ''music'' ''background'') (emit (Play ''ui'' ''game_start'') s6))"

definition restartGame :: "real \<Rightarrow> game \<Rightarrow> game" where
  "restartGame now s =
     startGame now (createCows (s\<lparr>scene := scene s - CowObj ` oid ` set (cows s), cows := []\<rparr>))"

text \<open>
  \<^verbatim>\<open>startGame\<close> and \<^verbatim>\<open>restartGame\<close> of the game state manager (the buttons), which reset
  score and health and then call the functions above.
\<close>

definition gsm_reset :: "game \<Rightarrow> game" where
  "gsm_reset s = changeState PLAYING (updateHealth 3 (updateScore 0 (s\<lparr>score := 0, health := 3\<rparr>)))"

definition gsm_startGame :: "real \<Rightarrow> game \<Rightarrow> game" where
  "gsm_startGame now s = startGame now (gsm_reset s)"

definition gsm_restartGame :: "real \<Rightarrow> game \<Rightarrow> game" where
  "gsm_restartGame now s = restartGame now (gsm_reset s)"

section \<open>Concrete states\<close>

text \<open>
  A running game without entities: the craft at its start position, three lives, no key
  held, every random number 1/2.
\<close>

definition noKeys :: keys where
  "noKeys = \<lparr>ArrowUp = False, ArrowDown = False, ArrowLeft = False, ArrowRight = False,
              Space = False, Shift = False, KeyE = False\<rparr>"

definition game0 :: game where
  "game0 = \<lparr>rnd = (\<lambda>_. 1 / 2), rndIx = 0, nextId = 100, scene = {}, events = [],
             particleSystems = [], currentState = PLAYING, score = 0, health = 3,
             highScores = [], ufo_position = vec 0 20 0, ufo_radius = 2,
             velocity = vec 0 0 0, hoverDirection = 1, hoverOffset = 0, keys = noKeys,
             tractorBeam_visible = False, beamBottom = vec 0 10 0, cows = [], jets = [],
             missiles = [], lastJetSpawn = 0, currentSpawnInterval = SPAWN_INTERVAL_BASE,
             gameActive = True\<rparr>"

text \<open>
  Three jets that overlap the craft in the same frame (distance 4, below the sum of the
  radii 2 + 2.5), each with its exhaust emitter and its playing engine sound.
\<close>

definition jetAt :: "nat \<Rightarrow> nat \<Rightarrow> vec3 \<Rightarrow> jet" where
  "jetAt i e p = \<lparr>oid = i, position = p, radius = 2.5, speed = JET_SPEED, lastFired = 0,
                  fireRate = 3000, target = vec 0 20 0,
                  engineSound = Some \<lparr>isPlaying = True\<rparr>, exhaustEmitter = Some e\<rparr>"

definition threeExhausts :: game where
  "threeExhausts =
     snd (createEngineExhaust (vec 0 20 6)
       (snd (createEngineExhaust (vec 0 20 6)
          (snd (createEngineExhaust (vec 0 20 6) game0)))))"

definition threeJets :: game where
  "threeJets = threeExhausts
     \<lparr>jets := [jetAt 1 100 (vec 0 20 4), jetAt 2 101 (vec 0 20 4), jetAt 3 102 (vec 0 20 4)]\<rparr>"

text \<open>
  Two missiles fired in the same frame from the same place, heading away from the craft.
\<close>

definition twoMissiles :: game where
  "twoMissiles =
     createMissileModel (vec 0 20 10) (vec 0 0 1)
       (createMissileModel (vec 0 20 10) (vec 0 0 1) game0)"

definition missileAfter :: "nat \<Rightarrow> nat \<Rightarrow> missile" where
  "missileAfter i n = \<lparr>oid = i, position = vec 0 20 (10 + real n / 2), radius = 0.5,
                        direction = vec 0 0 1, mspeed = MISSILE_SPEED, lifeTime = n,
                        mexhaustEmitter = Some (Suc i)\<rparr>"

text \<open>The three jets together with three missiles that overlap the craft as well.\<close>

definition crowded :: game where
  "crowded =
     (createMissileModel (vec 0 20 2) (vec 0 0 (- 1))
       (createMissileModel (vec 0 20 2) (vec 0 0 (- 1))
         (createMissileModel (vec 0 20 2) (vec 0 0 (- 1)) threeExhausts)))
     \<lparr>jets := [jetAt 1 100 (vec 0 20 4), jetAt 2 101 (vec 0 20 4), jetAt 3 102 (vec 0 20 4)]\<rparr>"

text \<open>
  A creature that is being pulled up and is two units below the craft, with the beam held.
\<close>

definition risingCow :: cow where
  "risingCow = \<lparr>oid = 1, position = vec 0 18 0, radius = 1.5, rotationY = 0,
                 isBeingAbducted = True, abductionProgress = 1, idleTimer = 0,
                 idleSpeed = 0.01\<rparr>"

definition abductNow :: game where
  "abductNow = game0\<lparr>keys := noKeys\<lparr>KeyE := True\<rparr>, tractorBeam_visible := True,
                     cows := [risingCow]\<rparr>"

text \<open>
  The age bound of an emitter: no entry of its lifetime array is above the lifetime of its
  settings.
\<close>

definition ageBounded :: "emitter \<Rightarrow> bool" where
  "ageBounded ps = list_all (\<lambda>p. plifetime p \<le> s_lifetime (esettings ps)) (particles ps)"

text \<open>
  The one-shot emitters of the list all keep the age bound; and the emitters that are due
  for removal: active, one-shot, with every particle dead.
\<close>

definition oneShotBounded :: "game \<Rightarrow> bool" where
  "oneShotBounded s = list_all ageBounded (filter oneShot (particleSystems s))"

definition dueEmitters :: "game \<Rightarrow> emitter list" where
  "dueEmitters s = filter (\<lambda>ps. active ps \<and> oneShot ps \<and> allDead ps) (particleSystems s)"

definition notDue :: "emitter \<Rightarrow> bool" where
  "notDue ps = (\<not> (active ps \<and> oneShot ps \<and> allDead ps))"

text \<open>
  An emitter in its last frame: every particle is dead or dies with the next increment.
\<close>

definition lastFrame :: "emitter \<Rightarrow> bool" where
  "lastFrame ps = list_all (\<lambda>p. s_lifetime (esettings ps) \<le> Suc (plifetime p)) (particles ps)"

text \<open>A one-shot sparkle burst of five particles, as the tractor beam creates them.\<close>

definition oneSparkle :: game where
  "oneSparkle = snd (createEmitter sparkle (vec 0 10 0) (vec 0 1 0) (sparkleOptions 5) game0)"

text \<open>The same burst with a lifetime of one frame.\<close>

definition briefSparkle :: game where
  "briefSparkle = snd (createEmitter sparkle (vec 0 10 0) (vec 0 1 0)
                         ((sparkleOptions 5)\<lparr>o_lifetime := Some 1\<rparr>) game0)"

text \<open>
  An explosion of size 0 (so without particles), stopped right after its creation; and a
  burst of five particles with lifetime 0, stopped right after its creation.
\<close>

definition stoppedExpired :: game where
  "stoppedExpired = stopEmitter (Some 100)
     (snd (createEmitter sparkle (vec 0 10 0) (vec 0 1 0)
             ((sparkleOptions 5)\<lparr>o_lifetime := Some 0\<rparr>) game0))"


definition stoppedEmpty :: game where
  "stoppedEmpty = stopEmitter (Some 100) (snd (ps_createExplosion (vec 0 10 0) 0 0 game0))"

section \<open>Consecutive frames\<close>







section \<open>Release records\<close>

text \<open>
  What identifies a jet or a missile across a traversal (its identity and the handles it
  owns; the traversals change position and timers only), and the release calls its removal
  issues: for a jet the stop of its engine sound, if it has one that is playing, and the
  removal of its exhaust emitter, if it has one; for a missile the removal of its emitter.
\<close>

definition jetKey :: "jet \<Rightarrow> nat \<times> sound option \<times> nat option" where
  "jetKey j = (oid j, engineSound j, exhaustEmitter j)"

definition jetRelease :: "nat \<times> sound option \<times> nat option \<Rightarrow> event list" where
  "jetRelease \<kappa> =
     (case fst (snd \<kappa>) of None \<Rightarrow> []
      | Some es \<Rightarrow> if isPlaying es then [EngineSoundStop (fst \<kappa>)] else [])
     @ (case snd (snd \<kappa>) of None \<Rightarrow> [] | Some e \<Rightarrow> [RemoveEmitter e])"

definition missileKey :: "missile \<Rightarrow> nat \<times> nat option" where
  "missileKey m = (oid m, mexhaustEmitter m)"

definition missileRelease :: "nat \<times> nat option \<Rightarrow> event list" where
  "missileRelease \<kappa> = (case snd \<kappa> of None \<Rightarrow> [] | Some e \<Rightarrow> [RemoveEmitter e])"

definition isRelease :: "event \<Rightarrow> bool" where
  "isRelease x = (case x of EngineSoundStop _ \<Rightarrow> True | RemoveEmitter _ \<Rightarrow> True | _ \<Rightarrow> False)"

text \<open>
  The emitter list is well formed: the identities of its emitters are distinct and below
  the next identity to be given out.  \<open>extends t t'\<close>: from \<open>t\<close> to \<open>t'\<close> identities were only
  given out, a well-formed list stayed so, and every emitter of \<open>t'\<close> is one of \<open>t\<close> or was
  created since.
\<close>

definition registered :: "game \<Rightarrow> bool" where
  "registered s = (distinct (map eid (particleSystems s)) \<and>
                   list_all (\<lambda>p. eid p < nextId s) (particleSystems s))"

definition extends :: "game \<Rightarrow> game \<Rightarrow> bool" where
  "extends t t' = (nextId t \<le> nextId t' \<and> (registered t \<longrightarrow> registered t') \<and>
     list_all (\<lambda>p. eid p \<in> set (map eid (particleSystems t)) \<or> nextId t \<le> eid p)
       (particleSystems t'))"

text \<open>
  A state in which every jet and every missile owns its handles: identities are distinct,
  no emitter belongs to two entities, every jet has an exhaust emitter and a playing engine
  sound, every missile an emitter, the identities in use are below the next one to be
  given out (so that a jet spawned now is distinct from the others), and the emitter list
  is well formed.
\<close>

definition ownsHandles :: "game \<Rightarrow> bool" where
  "ownsHandles s =
     (distinct (map oid (jets s)) \<and> distinct (map oid (missiles s)) \<and>
      distinct (map exhaustEmitter (jets s) @ map mexhaustEmitter (missiles s)) \<and>
      list_all (\<lambda>j. oid j < nextId s \<and>
                     (case engineSound j of None \<Rightarrow> False | Some es \<Rightarrow> isPlaying es) \<and>
                     (case exhaustEmitter j of None \<Rightarrow> False | Some e \<Rightarrow> e < nextId s))
        (jets s) \<and>
      list_all (\<lambda>m. case mexhaustEmitter m of None \<Rightarrow> False | Some e \<Rightarrow> e < nextId s)
        (missiles s) \<and>
      registered s)"

text \<open>
  Between \<open>s\<close> and \<open>s'\<close>: if the jet is still in the registry of \<open>s'\<close>, neither the stop of
  its engine sound nor the removal of its emitter was issued; if it is no longer there,
  each was issued exactly once and the emitter is no longer in the emitter list.  The same
  for a missile and the removal of its emitter.
\<close>

definition jetReleased :: "jet \<Rightarrow> game \<Rightarrow> game \<Rightarrow> bool" where
  "jetReleased j s s' =
     (case exhaustEmitter j of None \<Rightarrow> False
      | Some e \<Rightarrow>
          if oid j \<in> set (map oid (jets s')) then
            count_list (events s') (EngineSoundStop (oid j))
              = count_list (events s) (EngineSoundStop (oid j)) \<and>
            count_list (events s') (RemoveEmitter e) = count_list (events s) (RemoveEmitter e)
          else
            count_list (events s') (EngineSoundStop (oid j))
              = count_list (events s) (EngineSoundStop (oid j)) + 1 \<and>
            count_list (events s') (RemoveEmitter e)
              = count_list (events s) (RemoveEmitter e) + 1 \<and>
            e \<notin> set (map eid (particleSystems s')))"

definition missileReleased :: "missile \<Rightarrow> game \<Rightarrow> game \<Rightarrow> bool" where
  "missileReleased m s s' =
     (case mexhaustEmitter m of None \<Rightarrow> False
      | Some e \<Rightarrow>
          if oid m \<in> set (map oid (missiles s')) then
            count_list (events s') (RemoveEmitter e) = count_list (events s) (RemoveEmitter e)
          else
            count_list (events s') (RemoveEmitter e)
              = count_list (events s) (RemoveEmitter e) + 1 \<and>
            e \<notin> set (map eid (particleSystems s')))"

section \<open>Traversals and frame lemmas\<close>

lemma forEach_from_keeps:
  "(\<And>k t. f (cb k t) = f t) \<Longrightarrow> f (forEach_from len cb k n s) = f s"
  by (induction n arbitrary: k s) simp_all

lemma forEach_keeps: "(\<And>k t. f (cb k t) = f t) \<Longrightarrow> f (forEach len cb s) = f s"
  by (simp add: forEach_def forEach_from_keeps)

lemma forEach_from_invariant:
  "P s \<Longrightarrow> (\<And>k t. P t \<Longrightarrow> k < len t \<Longrightarrow> P (cb k t)) \<Longrightarrow> P (forEach_from len cb k n s)"
  by (induction n arbitrary: k s) simp_all

lemma snd_createEmitter:
  "snd (createEmitter t pos dir opts s) =
     s\<lparr>rndIx := rndIx s + 8 * s_count (mergeSettings (particleTypes t) opts),
       nextId := Suc (nextId s),
       scene := insert (Points (nextId s)) (scene s),
       particleSystems := particleSystems s @
         [\<lparr>eid = nextId s, sysPosition = pos,
           particles = map (\<lambda>i. newParticle (mergeSettings (particleTypes t) opts) dir (rnd s)
                                    (rndIx s + 8 * i))
                         [0..<s_count (mergeSettings (particleTypes t) opts)],
           esettings = mergeSettings (particleTypes t) opts, active = True,
           oneShot = (case o_oneShot opts of None \<Rightarrow> False | Some b \<Rightarrow> b),
           emissionRate = (case o_emissionRate opts of None \<Rightarrow> 1
                            | Some k \<Rightarrow> if k = 0 then 1 else k),
           emissionCounter = 0\<rparr>]\<rparr>"
  by (simp add: createEmitter_def Let_def)

named_theorems frame

lemma emit_frame [frame]:
  "jets (emit e s) = jets s" "missiles (emit e s) = missiles s" "cows (emit e s) = cows s"
  "health (emit e s) = health s" "score (emit e s) = score s"
  "ufo_position (emit e s) = ufo_position s" "ufo_radius (emit e s) = ufo_radius s"
  "currentSpawnInterval (emit e s) = currentSpawnInterval s" "keys (emit e s) = keys s"
  "particleSystems (emit e s) = particleSystems s" "scene (emit e s) = scene s"
  "events (emit e s) = events s @ [e]"
  by (simp_all add: emit_def)

lemma createEmitter_frame [frame]:
  "jets (snd (createEmitter t p d opts s)) = jets s"
  "missiles (snd (createEmitter t p d opts s)) = missiles s"
  "cows (snd (createEmitter t p d opts s)) = cows s"
  "health (snd (createEmitter t p d opts s)) = health s"
  "score (snd (createEmitter t p d opts s)) = score s"
  "ufo_position (snd (createEmitter t p d opts s)) = ufo_position s"
  "ufo_radius (snd (createEmitter t p d opts s)) = ufo_radius s"
  "currentSpawnInterval (snd (createEmitter t p d opts s)) = currentSpawnInterval s"
  "keys (snd (createEmitter t p d opts s)) = keys s"
  "events (snd (createEmitter t p d opts s)) = events s"
  by (simp_all add: snd_createEmitter)

lemma removeEmitter_frame [frame]:
  "jets (removeEmitter r s) = jets s" "missiles (removeEmitter r s) = missiles s"
  "cows (removeEmitter r s) = cows s"
  "health (removeEmitter r s) = health s" "score (removeEmitter r s) = score s"
  "ufo_position (removeEmitter r s) = ufo_position s"
  "ufo_radius (removeEmitter r s) = ufo_radius s"
  "currentSpawnInterval (removeEmitter r s) = currentSpawnInterval s"
  "keys (removeEmitter r s) = keys s"
  "events (removeEmitter r s) = events s"
  by (simp_all add: removeEmitter_def split: option.splits)

lemma createExplosion_frame [frame]:
  "jets (createExplosion p n s) = jets s" "missiles (createExplosion p n s) = missiles s"
  "cows (createExplosion p n s) = cows s"
  "health (createExplosion p n s) = health s" "score (createExplosion p n s) = score s"
  "ufo_position (createExplosion p n s) = ufo_position s"
  "ufo_radius (createExplosion p n s) = ufo_radius s"
  "currentSpawnInterval (createExplosion p n s) = currentSpawnInterval s"
  "keys (createExplosion p n s) = keys s"
  by (simp_all add: createExplosion_def ps_createExplosion_def frame)

lemma endGame_frame [frame]:
  "jets (endGame s) = jets s" "missiles (endGame s) = missiles s" "cows (endGame s) = cows s"
  "health (endGame s) = health s" "score (endGame s) = score s"
  "ufo_position (endGame s) = ufo_position s" "ufo_radius (endGame s) = ufo_radius s"
  "currentSpawnInterval (endGame s) = currentSpawnInterval s" "keys (endGame s) = keys s"
  "particleSystems (endGame s) = particleSystems s" "scene (endGame s) = scene s"
  by (simp_all add: endGame_def changeState_def saveHighScore_def emit_def)

lemma damagePlayer_frame [frame]:
  "jets (damagePlayer s) = jets s" "missiles (damagePlayer s) = missiles s"
  "cows (damagePlayer s) = cows s"
  "health (damagePlayer s) = health s - 1" "score (damagePlayer s) = score s"
  "ufo_position (damagePlayer s) = ufo_position s" "ufo_radius (damagePlayer s) = ufo_radius s"
  "currentSpawnInterval (damagePlayer s) = currentSpawnInterval s"
  "keys (damagePlayer s) = keys s"
  by (simp_all add: damagePlayer_def updateHealth_def Let_def frame)

lemma stopEngineSound_frame [frame]:
  "jets (stopEngineSound j s) = jets s" "missiles (stopEngineSound j s) = missiles s"
  "cows (stopEngineSound j s) = cows s"
  "health (stopEngineSound j s) = health s" "score (stopEngineSound j s) = score s"
  "ufo_position (stopEngineSound j s) = ufo_position s"
  "ufo_radius (stopEngineSound j s) = ufo_radius s"
  "currentSpawnInterval (stopEngineSound j s) = currentSpawnInterval s"
  "keys (stopEngineSound j s) = keys s"
  "particleSystems (stopEngineSound j s) = particleSystems s"
  "scene (stopEngineSound j s) = scene s"
  by (simp_all add: stopEngineSound_def frame split: option.splits)

lemma releaseJetEmitter_frame [frame]:
  "jets (releaseJetEmitter j s) = jets s" "missiles (releaseJetEmitter j s) = missiles s"
  "cows (releaseJetEmitter j s) = cows s"
  "health (releaseJetEmitter j s) = health s" "score (releaseJetEmitter j s) = score s"
  "ufo_position (releaseJetEmitter j s) = ufo_position s"
  "ufo_radius (releaseJetEmitter j s) = ufo_radius s"
  "currentSpawnInterval (releaseJetEmitter j s) = currentSpawnInterval s"
  "keys (releaseJetEmitter j s) = keys s"
  by (simp_all add: releaseJetEmitter_def frame split: option.splits)

lemma releaseMissileEmitter_frame [frame]:
  "jets (releaseMissileEmitter m s) = jets s"
  "missiles (releaseMissileEmitter m s) = missiles s"
  "cows (releaseMissileEmitter m s) = cows s"
  "health (releaseMissileEmitter m s) = health s" "score (releaseMissileEmitter m s) = score s"
  "ufo_position (releaseMissileEmitter m s) = ufo_position s"
  "ufo_radius (releaseMissileEmitter m s) = ufo_radius s"
  "currentSpawnInterval (releaseMissileEmitter m s) = currentSpawnInterval s"
  "keys (releaseMissileEmitter m s) = keys s"
  by (simp_all add: releaseMissileEmitter_def frame split: option.splits)

lemma removeJetAt_frame [frame]:
  "jets (removeJetAt k j s) = splice1 k (jets s)" "missiles (removeJetAt k j s) = missiles s"
  "cows (removeJetAt k j s) = cows s"
  "health (removeJetAt k j s) = health s" "score (removeJetAt k j s) = score s"
  "ufo_position (removeJetAt k j s) = ufo_position s"
  "ufo_radius (removeJetAt k j s) = ufo_radius s"
  "currentSpawnInterval (removeJetAt k j s) = currentSpawnInterval s"
  "keys (removeJetAt k j s) = keys s"
  "particleSystems (removeJetAt k j s) = particleSystems s"
  "events (removeJetAt k j s) = events s"
  by (simp_all add: removeJetAt_def)

lemma removeMissileAt_frame [frame]:
  "jets (removeMissileAt k m s) = jets s"
  "missiles (removeMissileAt k m s) = splice1 k (missiles s)"
  "cows (removeMissileAt k m s) = cows s"
  "health (removeMissileAt k m s) = health s" "score (removeMissileAt k m s) = score s"
  "ufo_position (removeMissileAt k m s) = ufo_position s"
  "ufo_radius (removeMissileAt k m s) = ufo_radius s"
  "currentSpawnInterval (removeMissileAt k m s) = currentSpawnInterval s"
  "keys (removeMissileAt k m s) = keys s"
  "particleSystems (removeMissileAt k m s) = particleSystems s"
  "events (removeMissileAt k m s) = events s"
  by (simp_all add: removeMissileAt_def)

lemma hitJet_frame [frame]:
  "jets (hitJet k s) =
     (if distanceTo (position (jets s ! k)) (ufo_position s) < ufo_radius s + radius (jets s ! k)
      then splice1 k (jets s) else jets s)"
  "health (hitJet k s) =
     (if distanceTo (position (jets s ! k)) (ufo_position s) < ufo_radius s + radius (jets s ! k)
      then health s - 1 else health s)"
  "missiles (hitJet k s) = missiles s" "cows (hitJet k s) = cows s"
  "score (hitJet k s) = score s"
  "ufo_position (hitJet k s) = ufo_position s" "ufo_radius (hitJet k s) = ufo_radius s"
  "currentSpawnInterval (hitJet k s) = currentSpawnInterval s"
  "keys (hitJet k s) = keys s"
  by (simp_all add: hitJet_def Let_def frame)

lemma hitMissile_frame [frame]:
  "missiles (hitMissile k s) =
     (if distanceTo (position (missiles s ! k)) (ufo_position s)
           < ufo_radius s + radius (missiles s ! k)
      then splice1 k (missiles s) else missiles s)"
  "health (hitMissile k s) =
     (if distanceTo (position (missiles s ! k)) (ufo_position s)
           < ufo_radius s + radius (missiles s ! k)
      then health s - 1 else health s)"
  "jets (hitMissile k s) = jets s" "cows (hitMissile k s) = cows s"
  "score (hitMissile k s) = score s"
  "ufo_position (hitMissile k s) = ufo_position s" "ufo_radius (hitMissile k s) = ufo_radius s"
  "currentSpawnInterval (hitMissile k s) = currentSpawnInterval s"
  "keys (hitMissile k s) = keys s"
  by (simp_all add: hitMissile_def Let_def frame)

lemma createMissileModel_frame [frame]:
  "jets (createMissileModel p d s) = jets s"
  "missiles (createMissileModel p d s) = missiles s @
     [\<lparr>oid = nextId s, position = p, radius = 0.5, direction = normalizeV d,
       mspeed = MISSILE_SPEED, lifeTime = 0, mexhaustEmitter = Some (Suc (nextId s))\<rparr>]"
  "cows (createMissileModel p d s) = cows s"
  "health (createMissileModel p d s) = health s" "score (createMissileModel p d s) = score s"
  "ufo_position (createMissileModel p d s) = ufo_position s"
  "ufo_radius (createMissileModel p d s) = ufo_radius s"
  "currentSpawnInterval (createMissileModel p d s) = currentSpawnInterval s"
  "keys (createMissileModel p d s) = keys s"
  "nextId (createMissileModel p d s) = Suc (Suc (nextId s))"
  by (simp_all add: createMissileModel_def createEmitter_def Let_def emit_def)

lemma moveMissile_frame [frame]:
  "missiles (moveMissile k s) =
     (let m = missiles s ! k;
          m2 = m\<lparr>position := addV (position m) (multiplyScalar (direction m) (mspeed m)),
                 lifeTime := Suc (lifeTime m)\<rparr>
      in if distanceTo (position m2) (ufo_position s) > GAME_BOUNDS * 1.5 \<or> lifeTime m2 > 500
         then splice1 k ((missiles s)[k := m2]) else (missiles s)[k := m2])"
  "jets (moveMissile k s) = jets s" "cows (moveMissile k s) = cows s"
  "health (moveMissile k s) = health s" "score (moveMissile k s) = score s"
  "ufo_position (moveMissile k s) = ufo_position s" "ufo_radius (moveMissile k s) = ufo_radius s"
  "currentSpawnInterval (moveMissile k s) = currentSpawnInterval s"
  "keys (moveMissile k s) = keys s"
  by (simp_all add: moveMissile_def Let_def frame)

lemma update_down_keeps:
  "(\<And>i t. f (update_at i t) = f t) \<Longrightarrow> f (update_down n s) = f s"
  by (induction n arbitrary: s) simp_all

lemma update_at_frame [frame]:
  "jets (update_at i s) = jets s" "missiles (update_at i s) = missiles s"
  "cows (update_at i s) = cows s" "health (update_at i s) = health s"
  "currentSpawnInterval (update_at i s) = currentSpawnInterval s"
  "events (update_at i s) = events s"
  by (simp_all add: update_at_def Let_def split: prod.splits)

lemma update_frame [frame]:
  "jets (update s) = jets s" "missiles (update s) = missiles s"
  "cows (update s) = cows s" "health (update s) = health s"
  "currentSpawnInterval (update s) = currentSpawnInterval s"
  "events (update s) = events s"
  by (simp_all add: update_def update_down_keeps frame)

lemma updateMissiles_frame [frame]:
  "jets (updateMissiles s) = jets s" "cows (updateMissiles s) = cows s"
  "health (updateMissiles s) = health s"
  "currentSpawnInterval (updateMissiles s) = currentSpawnInterval s"
  "ufo_position (updateMissiles s) = ufo_position s"
  by (simp_all add: updateMissiles_def forEach_keeps frame)

lemma checkCollisions_frame [frame]:
  "cows (checkCollisions s) = cows s"
  "currentSpawnInterval (checkCollisions s) = currentSpawnInterval s"
  "ufo_position (checkCollisions s) = ufo_position s"
  by (simp_all add: checkCollisions_def forEach_keeps frame)

lemma advance_frame [frame]:
  "jets (advance n s) = jets s" "missiles (advance n s) = missiles s"
  "cows (advance n s) = cows s" "health (advance n s) = health s"
  "currentSpawnInterval (advance n s) = currentSpawnInterval s"
  "ufo_position (advance n s) = ufo_position s" "keys (advance n s) = keys s"
  "events (advance n s) = events s" "nextId (advance n s) = nextId s"
  "particleSystems (advance n s) = particleSystems s" "scene (advance n s) = scene s"
  by (simp_all add: advance_def)

lemma spawnJet_frame [frame]:
  "missiles (spawnJet s) = missiles s" "cows (spawnJet s) = cows s"
  "health (spawnJet s) = health s"
  "currentSpawnInterval (spawnJet s) = currentSpawnInterval s"
  "ufo_position (spawnJet s) = ufo_position s" "keys (spawnJet s) = keys s"
  "events (spawnJet s) = events s"
  by (simp_all add: spawnJet_def createEngineExhaust_def createEmitter_def Let_def advance_def)

lemma moveJet_frame [frame]:
  "cows (moveJet now k s) = cows s" "health (moveJet now k s) = health s"
  "currentSpawnInterval (moveJet now k s) = currentSpawnInterval s"
  "ufo_position (moveJet now k s) = ufo_position s" "keys (moveJet now k s) = keys s"
  by (simp_all add: moveJet_def Let_def frame)

lemma updateJets_frame [frame]:
  "cows (updateJets now s) = cows s" "health (updateJets now s) = health s"
  "currentSpawnInterval (updateJets now s) = currentSpawnInterval s"
  "ufo_position (updateJets now s) = ufo_position s"
  by (simp_all add: updateJets_def Let_def forEach_keeps frame)

lemma idleCow_frame [frame]:
  "length (cows (idleCow k s)) = length (cows s)"
  "jets (idleCow k s) = jets s" "missiles (idleCow k s) = missiles s"
  "health (idleCow k s) = health s"
  "currentSpawnInterval (idleCow k s) = currentSpawnInterval s"
  "ufo_position (idleCow k s) = ufo_position s" "keys (idleCow k s) = keys s"
  by (simp_all add: idleCow_def Let_def frame)

lemma updateCows_frame [frame]:
  "length (cows (updateCows s)) = length (cows s)"
  "jets (updateCows s) = jets s" "missiles (updateCows s) = missiles s"
  "health (updateCows s) = health s"
  "currentSpawnInterval (updateCows s) = currentSpawnInterval s"
  "ufo_position (updateCows s) = ufo_position s" "keys (updateCows s) = keys s"
  by (simp_all add: updateCows_def forEach_keeps [where f = "\<lambda>t. length (cows t)"]
      forEach_keeps frame)

section \<open>Damage and the end of the game\<close>

lemma events_createExplosion:
  "events (createExplosion p n s) =
     events s @ [Play ''ufo'' ''explosion'', ShakeScreen (real n * 0.2)]"
  by (simp add: createExplosion_def ps_createExplosion_def snd_createEmitter emit_def)

lemma health_createExplosion: "health (createExplosion p n s) = health s"
  by (simp add: createExplosion_def ps_createExplosion_def snd_createEmitter emit_def)

lemma events_endGame: "events (endGame s) = events s @ [GameEnded]"
  by (simp add: endGame_def changeState_def saveHighScore_def emit_def)

lemma health_endGame: "health (endGame s) = health s"
  by (simp add: endGame_def changeState_def saveHighScore_def emit_def)

lemma health_damagePlayer: "health (damagePlayer s) = health s - 1"
  by (simp add: damagePlayer_def updateHealth_def Let_def emit_def health_endGame
      health_createExplosion)

lemma events_damagePlayer:
  "events (damagePlayer s) = events s @
     (if health s - 1 \<le> 0
      then [GameEnded, ShakeScreen 0.5, Play ''ufo'' ''explosion'',
            Play ''ufo'' ''explosion'', ShakeScreen (real (5::nat) * 0.2), GameEnded]
      else [ShakeScreen 0.5, Play ''ufo'' ''explosion''])"
  by (simp add: damagePlayer_def updateHealth_def Let_def emit_def health_endGame
      health_createExplosion events_endGame events_createExplosion)

text \<open>
  C1.  Starting from three lives and an empty event record, three calls of \<^verbatim>\<open>damagePlayer\<close>
  bring health to 0, and the record then holds the game-end notification twice: the third
  call ends the game once inside \<^verbatim>\<open>updateHealth\<close> and once more in \<^verbatim>\<open>damagePlayer\<close> itself.
\<close>

theorem three_hits_end_game_twice:
  "health (damagePlayer (damagePlayer (damagePlayer (s\<lparr>health := 3, events := []\<rparr>)))) = 0 \<and>
   count_list (events (damagePlayer (damagePlayer (damagePlayer (s\<lparr>health := 3, events := []\<rparr>)))))
     GameEnded = 2"
  by (simp add: health_damagePlayer events_damagePlayer)

section \<open>The craft's speed\<close>

lemma velocity_emit: "velocity (emit e s) = velocity s"
  by (simp add: emit_def)

lemma velocity_beamCow: "velocity (beamCow k s) = velocity s"
  by (simp add: beamCow_def Let_def emit_def updateScore_def snd_createEmitter)

lemma velocity_updateTractorBeam: "velocity (updateTractorBeam s) = velocity s"
  by (simp add: updateTractorBeam_def Let_def emit_def advance_def snd_createEmitter
      forEach_keeps velocity_beamCow)

lemma lengthV_multiplyScalar: "lengthV (multiplyScalar a k) = \<bar>k\<bar> * lengthV a"
proof -
  have "lengthSq (multiplyScalar a k) = k\<^sup>2 * lengthSq a"
    by (simp add: lengthSq_def multiplyScalar_def power2_eq_square algebra_simps)
  then show ?thesis
    by (simp add: lengthV_def real_sqrt_mult)
qed

lemma lengthV_normalizeV: "lengthV a \<noteq> 0 \<Longrightarrow> lengthV (normalizeV a) = 1"
proof -
  assume h: "lengthV a \<noteq> 0"
  have "0 \<le> lengthV a" by (simp add: lengthV_def lengthSq_def)
  with h show ?thesis
    by (simp add: normalizeV_def lengthV_multiplyScalar)
qed

lemma lengthV_mono: "lengthSq a \<le> lengthSq b \<Longrightarrow> lengthV a \<le> lengthV b"
  by (simp add: lengthV_def)

lemma lengthV_zero_y: "lengthV (a\<lparr>vy := 0\<rparr>) \<le> lengthV a"
  by (rule lengthV_mono) (simp add: lengthSq_def)

lemma half_square: "(x * (- 0.5)) * (x * (- 0.5)) \<le> x * (x::real)"
proof -
  have "(x * (- 0.5)) * (x * (- 0.5)) = (x * x) / 4" by simp
  also have "\<dots> \<le> x * x" by simp
  finally show ?thesis .
qed

lemma lengthV_bounce_x: "lengthV (a\<lparr>vx := vx a * (- 0.5)\<rparr>) \<le> lengthV a"
  by (rule lengthV_mono) (use half_square [of "vx a"] in \<open>simp add: lengthSq_def\<close>)

lemma lengthV_bounce_z: "lengthV (a\<lparr>vz := vz a * (- 0.5)\<rparr>) \<le> lengthV a"
  by (rule lengthV_mono) (use half_square [of "vz a"] in \<open>simp add: lengthSq_def\<close>)

lemma clamp_speed:
  "lengthV (if lengthV v > MAX_SPEED then multiplyScalar (normalizeV v) MAX_SPEED else v)
     \<le> MAX_SPEED"
proof (cases "lengthV v > MAX_SPEED")
  case True
  then have "lengthV v \<noteq> 0" by (simp add: MAX_SPEED_def)
  then show ?thesis using True
    by (simp add: lengthV_multiplyScalar lengthV_normalizeV MAX_SPEED_def)
next
  case False then show ?thesis by simp
qed

text \<open>
  Over exact real numbers the velocity that \<^verbatim>\<open>updateUFO\<close> leaves behind has magnitude at
  most \<^verbatim>\<open>MAX_SPEED\<close>, whatever keys are held and whatever the state before: the clamp
  bounds it, and the floor clamp and the two boundary bounces only shrink a component.
  This is a fact of the arithmetic of real numbers; the rescaling
  \<^verbatim>\<open>normalize().multiplyScalar(MAX_SPEED)\<close> of doubles can end one unit in the last place
  above \<^verbatim>\<open>MAX_SPEED\<close>.
\<close>

theorem speed_clamp: "lengthV (velocity (updateUFO s)) \<le> MAX_SPEED"
proof -
  define k where "k = keys s"
  define az where
    "az = (if ArrowDown k then ACCELERATION else 0) - (if ArrowUp k then ACCELERATION else 0)"
  define ax where
    "ax = (if ArrowRight k then ACCELERATION else 0) - (if ArrowLeft k then ACCELERATION else 0)"
  define ay where
    "ay = (if Space k then ACCELERATION else 0) - (if Shift k then ACCELERATION else 0)"
  define v1 where "v1 = addV (velocity s) (vec ax ay az)"
  define v2 where "v2 = multiplyScalar v1 DECELERATION"
  define v3 where
    "v3 = (if lengthV v2 > MAX_SPEED then multiplyScalar (normalizeV v2) MAX_SPEED else v2)"
  define p1 where "p1 = addV (ufo_position s) v3"
  define below where "below = (vy p1 < 5)"
  define p2 where "p2 = (if below then p1\<lparr>vy := 5\<rparr> else p1)"
  define v4 where "v4 = (if below then v3\<lparr>vy := 0\<rparr> else v3)"
  define outX where "outX = (\<bar>vx p2\<bar> > GAME_BOUNDS)"
  define p3 where "p3 = (if outX then p2\<lparr>vx := sgn (vx p2) * GAME_BOUNDS\<rparr> else p2)"
  define v5 where "v5 = (if outX then v4\<lparr>vx := vx v4 * (- 0.5)\<rparr> else v4)"
  define outZ where "outZ = (\<bar>vz p3\<bar> > GAME_BOUNDS)"
  define p4 where "p4 = (if outZ then p3\<lparr>vz := sgn (vz p3) * GAME_BOUNDS\<rparr> else p3)"
  define v6 where "v6 = (if outZ then v5\<lparr>vz := vz v5 * (- 0.5)\<rparr> else v5)"
  define ho where "ho = hoverOffset s + HOVER_SPEED * hoverDirection s"
  define hd where
    "hd = (if \<bar>ho\<bar> > HOVER_HEIGHT then hoverDirection s * (- 1) else hoverDirection s)"
  define p5 where "p5 = p4\<lparr>vy := vy p4 + HOVER_SPEED * hd\<rparr>"
  have eq: "moveUFO s =
      s\<lparr>velocity := v6, ufo_position := p5, hoverOffset := ho, hoverDirection := hd\<rparr>"
    unfolding moveUFO_def Let_def p5_def hd_def ho_def v6_def p4_def outZ_def v5_def
      p3_def outX_def v4_def p2_def below_def p1_def v3_def v2_def v1_def ay_def ax_def az_def
      k_def
    by (rule refl)
  have vel: "velocity (updateUFO s) = v6"
    by (simp add: updateUFO_def Let_def velocity_emit velocity_updateTractorBeam eq)
  have "lengthV v3 \<le> MAX_SPEED"
    unfolding v3_def by (rule clamp_speed)
  then have "lengthV v4 \<le> MAX_SPEED"
    using lengthV_zero_y [of v3] by (simp add: v4_def)
  then have "lengthV v5 \<le> MAX_SPEED"
    using lengthV_bounce_x [of v4] by (simp add: v5_def)
  then have "lengthV v6 \<le> MAX_SPEED"
    using lengthV_bounce_z [of v5] by (simp add: v6_def)
  then show ?thesis by (simp add: vel)
qed

section \<open>Removal during a traversal\<close>

lemma threeExhausts_frame:
  "ufo_position threeExhausts = vec 0 20 0" "ufo_radius threeExhausts = 2"
  "health threeExhausts = 3" "missiles threeExhausts = []"
  by (simp_all add: threeExhausts_def createEngineExhaust_def frame game0_def)

lemma distance_on_z: "distanceTo (vec a b c) (vec a b d) = \<bar>c - d\<bar>"
  by (simp add: distanceTo_def lengthV_def lengthSq_def subVectors_def vec_def)

text \<open>
  C3.  Three jets overlap the craft in one frame.  The collision pass removes the first,
  which moves the second to index 0; the traversal goes on at index 1 and never visits it.
  The second jet is still in the registry after the pass, untouched, and only two hits are
  counted.
\<close>

theorem skipped_jet:
  "jets (checkCollisions threeJets) = [jetAt 2 101 (vec 0 20 4)] \<and>
   health (checkCollisions threeJets) = 1"
  by (simp add: checkCollisions_def forEach_def forEach_keeps frame threeJets_def
      threeExhausts_frame jetAt_def distance_on_z splice1_def)

section \<open>Health\<close>

lemma length_splice1: "k < length xs \<Longrightarrow> length (splice1 k xs) = length xs - 1"
  by (simp add: splice1_def)

lemma hitJet_count:
  assumes "k < length (jets t)"
  shows "length (jets (hitJet k t)) \<le> length (jets t) \<and>
         health (hitJet k t) = health t - int (length (jets t) - length (jets (hitJet k t)))"
  using assms by (simp add: frame length_splice1)

lemma hitMissile_count:
  assumes "k < length (missiles t)"
  shows "length (missiles (hitMissile k t)) \<le> length (missiles t) \<and>
         health (hitMissile k t) =
           health t - int (length (missiles t) - length (missiles (hitMissile k t)))"
  using assms by (simp add: frame length_splice1)

lemma jets_pass_count:
  "length (jets (forEach_from (\<lambda>t. length (jets t)) hitJet k n s)) \<le> length (jets s) \<and>
   health (forEach_from (\<lambda>t. length (jets t)) hitJet k n s) =
     health s - int (length (jets s) - length (jets (forEach_from (\<lambda>t. length (jets t)) hitJet k n s)))"
proof (rule forEach_from_invariant
    [where P = "\<lambda>t. length (jets t) \<le> length (jets s) \<and>
                     health t = health s - int (length (jets s) - length (jets t))"])
  show "length (jets s) \<le> length (jets s) \<and>
        health s = health s - int (length (jets s) - length (jets s))" by simp
next
  fix k and t :: game
  assume a: "length (jets t) \<le> length (jets s) \<and>
             health t = health s - int (length (jets s) - length (jets t))"
    and k: "k < length (jets t)"
  from hitJet_count [OF k] a
  show "length (jets (hitJet k t)) \<le> length (jets s) \<and>
        health (hitJet k t) = health s - int (length (jets s) - length (jets (hitJet k t)))"
    by linarith
qed

lemma missiles_pass_count:
  "length (missiles (forEach_from (\<lambda>t. length (missiles t)) hitMissile k n s)) \<le> length (missiles s) \<and>
   health (forEach_from (\<lambda>t. length (missiles t)) hitMissile k n s) =
     health s - int (length (missiles s)
       - length (missiles (forEach_from (\<lambda>t. length (missiles t)) hitMissile k n s)))"
proof (rule forEach_from_invariant
    [where P = "\<lambda>t. length (missiles t) \<le> length (missiles s) \<and>
                     health t = health s - int (length (missiles s) - length (missiles t))"])
  show "length (missiles s) \<le> length (missiles s) \<and>
        health s = health s - int (length (missiles s) - length (missiles s))" by simp
next
  fix k and t :: game
  assume a: "length (missiles t) \<le> length (missiles s) \<and>
             health t = health s - int (length (missiles s) - length (missiles t))"
    and k: "k < length (missiles t)"
  from hitMissile_count [OF k] a
  show "length (missiles (hitMissile k t)) \<le> length (missiles s) \<and>
        health (hitMissile k t) =
          health s - int (length (missiles s) - length (missiles (hitMissile k t)))"
    by linarith
qed

lemma health_gsm_reset: "health (gsm_reset s) = 3"
  by (simp add: gsm_reset_def changeState_def updateHealth_def updateScore_def Let_def)

text \<open>
  C4 (as amended).  Health has no floor.  Every hit of the collision pass takes exactly one
  life: health after \<^verbatim>\<open>checkCollisions\<close> is health before, less the number of jets and of
  missiles the pass removed.  So health never grows during the pass; \<^verbatim>\<open>damagePlayer\<close> takes
  exactly one life whatever the health was; and the game state manager starts a game with
  three lives.
\<close>

theorem health_drops_by_hits:
  "health (checkCollisions s) =
     health s - int (length (jets s) - length (jets (checkCollisions s)))
              - int (length (missiles s) - length (missiles (checkCollisions s))) \<and>
   health (checkCollisions s) \<le> health s \<and>
   health (damagePlayer s) = health s - 1 \<and>
   health (gsm_reset s) = 3"
proof -
  define s1 where "s1 = forEach (\<lambda>t. length (jets t)) hitJet s"
  have cc: "checkCollisions s = forEach (\<lambda>t. length (missiles t)) hitMissile s1"
    by (simp add: checkCollisions_def s1_def)
  have j: "jets (checkCollisions s) = jets s1"
    by (simp add: cc forEach_keeps frame)
  have m: "missiles s1 = missiles s"
    by (simp add: s1_def forEach_keeps frame)
  have h1: "health s1 = health s - int (length (jets s) - length (jets s1))"
    using jets_pass_count [of 0 "length (jets s)" s] by (simp add: s1_def forEach_def)
  have h2: "health (checkCollisions s) =
      health s1 - int (length (missiles s1) - length (missiles (checkCollisions s)))"
    using missiles_pass_count [of 0 "length (missiles s1)" s1] by (simp add: cc forEach_def)
  have eq: "health (checkCollisions s) =
     health s - int (length (jets s) - length (jets (checkCollisions s)))
              - int (length (missiles s) - length (missiles (checkCollisions s)))"
    using h1 h2 by (simp add: j m)
  then have "health (checkCollisions s) \<le> health s" by linarith
  with eq show ?thesis by (simp add: frame health_gsm_reset)
qed

text \<open>
  C4 (as stated) fails: with three lives, two jets and two missiles that hit in the same frame
  (of three overlapping each, the middle one being passed over) leave health at -1.
\<close>

theorem health_negative: "health crowded = 3 \<and> health (checkCollisions crowded) = - 1"
  by (simp add: checkCollisions_def forEach_def forEach_keeps frame crowded_def
      threeExhausts_frame jetAt_def distance_on_z splice1_def)

section \<open>The age limit of a missile\<close>

lemma ufo_position_updateMissiles: "ufo_position (updateMissiles s) = ufo_position s"
  by (simp add: updateMissiles_def forEach_keeps frame)

lemma normalize_unit_z: "normalizeV (vec 0 0 1) = vec 0 0 1"
  by (simp add: normalizeV_def lengthV_def lengthSq_def vec_def multiplyScalar_def)

lemma twoMissiles_start:
  "missiles twoMissiles = [missileAfter 100 0, missileAfter 102 0]"
  "ufo_position twoMissiles = vec 0 20 0"
  by (simp_all add: twoMissiles_def frame game0_def missileAfter_def normalize_unit_z)

lemma moved_missileAfter:
  "(missileAfter i n)\<lparr>position := addV (position (missileAfter i n))
        (multiplyScalar (direction (missileAfter i n)) (mspeed (missileAfter i n))),
      lifeTime := Suc (lifeTime (missileAfter i n))\<rparr> = missileAfter i (Suc n)"
  by (simp add: missileAfter_def addV_def multiplyScalar_def vec_def MISSILE_SPEED_def
      add_divide_distrib)

lemma missileAfter_in_bounds:
  "n \<le> 500 \<Longrightarrow>
   \<not> distanceTo (position (missileAfter i n)) (vec 0 20 0) > GAME_BOUNDS * 1.5"
  by (simp add: missileAfter_def distance_on_z GAME_BOUNDS_def)

lemma lifeTime_missileAfter: "lifeTime (missileAfter i n) = n"
  by (simp add: missileAfter_def)

lemma moveMissile_missileAfter:
  assumes "k < length (missiles s)" and "missiles s ! k = missileAfter i n"
    and "ufo_position s = vec 0 20 0"
  shows "missiles (moveMissile k s) =
     (if n < 500 then (missiles s)[k := missileAfter i (Suc n)]
      else splice1 k ((missiles s)[k := missileAfter i (Suc n)]))"
proof -
  have "missiles (moveMissile k s) =
     (if distanceTo (position (missileAfter i (Suc n))) (vec 0 20 0) > GAME_BOUNDS * 1.5
         \<or> lifeTime (missileAfter i (Suc n)) > 500
      then splice1 k ((missiles s)[k := missileAfter i (Suc n)])
      else (missiles s)[k := missileAfter i (Suc n)])"
    by (simp only: moveMissile_frame Let_def assms moved_missileAfter)
  then show ?thesis
    using missileAfter_in_bounds [of "Suc n" i]
    by (simp add: lifeTime_missileAfter)
qed

lemma moveMissile_two_first:
  assumes "missiles s = [missileAfter i n, b]" and "ufo_position s = vec 0 20 0" and "n < 500"
  shows "missiles (moveMissile 0 s) = [missileAfter i (Suc n), b]"
  using assms moveMissile_missileAfter [of 0 s i n] by simp

lemma moveMissile_two_second:
  assumes "missiles s = [a, missileAfter i n]" and "ufo_position s = vec 0 20 0" and "n < 500"
  shows "missiles (moveMissile (Suc 0) s) = [a, missileAfter i (Suc n)]"
  using assms moveMissile_missileAfter [of "Suc 0" s i n] by simp

lemma step_two:
  assumes "missiles s = [missileAfter 100 n, missileAfter 102 n]"
    and "ufo_position s = vec 0 20 0" and "n < 500"
  shows "missiles (updateMissiles s) = [missileAfter 100 (Suc n), missileAfter 102 (Suc n)]"
proof -
  have a: "missiles (moveMissile 0 s) = [missileAfter 100 (Suc n), missileAfter 102 n]"
    using assms by (rule moveMissile_two_first)
  have u: "ufo_position (moveMissile 0 s) = vec 0 20 0"
    using assms by (simp add: frame)
  have b: "missiles (moveMissile (Suc 0) (moveMissile 0 s))
             = [missileAfter 100 (Suc n), missileAfter 102 (Suc n)]"
    using a u assms(3) by (rule moveMissile_two_second)
  show ?thesis
    using assms(1) a b by (simp add: updateMissiles_def forEach_def)
qed

lemma run_two:
  "n \<le> 500 \<Longrightarrow>
   missiles ((updateMissiles ^^ n) twoMissiles) = [missileAfter 100 n, missileAfter 102 n] \<and>
   ufo_position ((updateMissiles ^^ n) twoMissiles) = vec 0 20 0"
proof (induction n)
  case 0
  then show ?case by (simp add: twoMissiles_start)
next
  case (Suc n)
  then show ?case
    by (simp add: step_two ufo_position_updateMissiles)
qed

lemma moveMissile_two_expire:
  assumes "missiles s = [missileAfter i 500, b]" and "ufo_position s = vec 0 20 0"
  shows "missiles (moveMissile 0 s) = [b]"
  using assms moveMissile_missileAfter [of 0 s i 500] by (simp add: splice1_def)

lemma last_step_two:
  assumes "missiles s = [missileAfter 100 500, missileAfter 102 500]"
    and "ufo_position s = vec 0 20 0"
  shows "missiles (updateMissiles s) = [missileAfter 102 500]"
proof -
  have a: "missiles (moveMissile 0 s) = [missileAfter 102 500]"
    using assms by (rule moveMissile_two_expire)
  show ?thesis
    using assms a by (simp add: updateMissiles_def forEach_def)
qed

text \<open>
  C8.  Two missiles are created in the same frame, heading away from the craft, and the
  missile pass runs 501 times (the frame of creation and 500 more).  In the last pass the
  first missile exceeds the age limit and is spliced out; the second one moves to index 0
  and is passed over.  It is still in the registry after that pass, with age 500, although
  it never left the bounds and never hit the craft.
\<close>

theorem second_missile_outlives_limit:
  "missiles ((updateMissiles ^^ 501) twoMissiles) = [missileAfter 102 500]"
proof -
  have "(501::nat) = Suc 500" by simp
  then have "(updateMissiles ^^ 501) twoMissiles
               = updateMissiles ((updateMissiles ^^ 500) twoMissiles)"
    by (simp only: funpow.simps o_apply)
  then show ?thesis
    using run_two [of 500] by (simp add: last_step_two)
qed

section \<open>The spawn interval\<close>

lemma updateTractorBeam_off:
  "\<not> KeyE (keys s) \<Longrightarrow>
   cows (updateTractorBeam s) = cows s \<and>
   currentSpawnInterval (updateTractorBeam s) = currentSpawnInterval s"
  by (cases "tractorBeam_visible s") (simp_all add: updateTractorBeam_def Let_def emit_def)

lemma sparkle_step:
  "cows (if c then snd (createEmitter t p d opts (advance 4 s2)) else advance 1 s2) = cows s2"
  "currentSpawnInterval (if c then snd (createEmitter t p d opts (advance 4 s2)) else advance 1 s2)
     = currentSpawnInterval s2"
  "ufo_position (if c then snd (createEmitter t p d opts (advance 4 s2)) else advance 1 s2)
     = ufo_position s2"
  "keys (if c then snd (createEmitter t p d opts (advance 4 s2)) else advance 1 s2) = keys s2"
  by (simp_all add: frame)

lemma updateTractorBeam_on:
  assumes "KeyE (keys s)"
  shows "\<exists>s3. cows s3 = cows s \<and> currentSpawnInterval s3 = currentSpawnInterval s \<and>
              ufo_position s3 = ufo_position s \<and> keys s3 = keys s \<and>
              updateTractorBeam s = forEach (\<lambda>t. length (cows t)) beamCow s3"
proof (cases "tractorBeam_visible s")
  case True
  define s2 where "s2 = s\<lparr>tractorBeam_visible := True\<rparr>"
  define s3 where "s3 =
     (if random s2 < 0.2 then
        snd (createEmitter sparkle
               (vec (vx (beamBottom s2) + (rnd s2 (rndIx s2 + 1) - 0.5) * 3)
                    (vy (beamBottom s2) + rnd s2 (rndIx s2 + 2) * 8)
                    (vz (beamBottom s2) + (rnd s2 (rndIx s2 + 3) - 0.5) * 3))
               (vec 0 1 0) (sparkleOptions 5) (advance 4 s2))
      else advance 1 s2)"
  have "updateTractorBeam s = forEach (\<lambda>t. length (cows t)) beamCow s3"
    using assms True
    by (simp add: updateTractorBeam_def Let_def s3_def s2_def split del: if_split cong: if_cong)
  moreover have "cows s3 = cows s" "currentSpawnInterval s3 = currentSpawnInterval s"
    "ufo_position s3 = ufo_position s" "keys s3 = keys s"
    unfolding s3_def by (simp_all only: sparkle_step) (simp_all add: s2_def)
  ultimately show ?thesis by blast
next
  case False
  define s2 where "s2 = emit (Play ''ufo'' ''tractor_beam'') (s\<lparr>tractorBeam_visible := True\<rparr>)"
  define s3 where "s3 =
     (if random s2 < 0.2 then
        snd (createEmitter sparkle
               (vec (vx (beamBottom s2) + (rnd s2 (rndIx s2 + 1) - 0.5) * 3)
                    (vy (beamBottom s2) + rnd s2 (rndIx s2 + 2) * 8)
                    (vz (beamBottom s2) + (rnd s2 (rndIx s2 + 3) - 0.5) * 3))
               (vec 0 1 0) (sparkleOptions 5) (advance 4 s2))
      else advance 1 s2)"
  have tb: "tractorBeam_visible s2" by (simp add: s2_def emit_def)
  have "updateTractorBeam s = forEach (\<lambda>t. length (cows t)) beamCow s3"
    using assms False tb
    by (simp add: updateTractorBeam_def Let_def s3_def s2_def [symmetric]
        split del: if_split cong: if_cong)
  moreover have "cows s3 = cows s" "currentSpawnInterval s3 = currentSpawnInterval s"
    "ufo_position s3 = ufo_position s" "keys s3 = keys s"
    unfolding s3_def by (simp_all only: sparkle_step) (simp_all add: s2_def emit_def)
  ultimately show ?thesis by blast
qed

lemma beamCow_frame [frame]:
  "jets (beamCow k s) = jets s" "missiles (beamCow k s) = missiles s"
  "health (beamCow k s) = health s"
  "ufo_position (beamCow k s) = ufo_position s" "keys (beamCow k s) = keys s"
  by (simp_all add: beamCow_def Let_def frame updateScore_def)

lemma beamCow_cases:
  assumes "k < length (cows s)"
  shows "(length (cows (beamCow k s)) = length (cows s) \<and>
          currentSpawnInterval (beamCow k s) = currentSpawnInterval s) \<or>
         (Suc (length (cows (beamCow k s))) = length (cows s) \<and>
          currentSpawnInterval (beamCow k s) =
            max SPAWN_INTERVAL_MIN (currentSpawnInterval s * (1 - SPAWN_RATE_INCREASE)))"
proof (cases "isBeingAbducted (cows s ! k)")
  case False
  then show ?thesis
    by (simp add: beamCow_def Let_def emit_def)
next
  case True
  have n: "Suc (length (cows s) - Suc 0) = length (cows s)"
    using assms by simp
  show ?thesis
    using True assms
    by (simp add: beamCow_def Let_def frame updateScore_def length_splice1 n)
qed

lemma tighten_bounds:
  assumes "SPAWN_INTERVAL_MIN \<le> c"
  shows "SPAWN_INTERVAL_MIN \<le> max SPAWN_INTERVAL_MIN (c * (1 - SPAWN_RATE_INCREASE))"
    and "max SPAWN_INTERVAL_MIN (c * (1 - SPAWN_RATE_INCREASE)) \<le> c"
  using assms by (simp_all add: SPAWN_INTERVAL_MIN_def SPAWN_RATE_INCREASE_def)

lemma tighten_funpow_bounds:
  assumes "SPAWN_INTERVAL_MIN \<le> c"
  shows "SPAWN_INTERVAL_MIN \<le>
           ((\<lambda>c. max SPAWN_INTERVAL_MIN (c * (1 - SPAWN_RATE_INCREASE))) ^^ n) c \<and>
         ((\<lambda>c. max SPAWN_INTERVAL_MIN (c * (1 - SPAWN_RATE_INCREASE))) ^^ n) c \<le> c"
proof (induction n)
  case 0
  show ?case using assms by simp
next
  case (Suc n)
  then show ?case
    using tighten_bounds [of "((\<lambda>c. max SPAWN_INTERVAL_MIN (c * (1 - SPAWN_RATE_INCREASE))) ^^ n) c"]
    by simp
qed

lemma beam_pass_interval:
  "length (cows (forEach_from (\<lambda>t. length (cows t)) beamCow k n s)) \<le> length (cows s) \<and>
   currentSpawnInterval (forEach_from (\<lambda>t. length (cows t)) beamCow k n s) =
     ((\<lambda>c. max SPAWN_INTERVAL_MIN (c * (1 - SPAWN_RATE_INCREASE))) ^^
        (length (cows s) - length (cows (forEach_from (\<lambda>t. length (cows t)) beamCow k n s))))
       (currentSpawnInterval s)"
proof (rule forEach_from_invariant
    [where P = "\<lambda>t. length (cows t) \<le> length (cows s) \<and>
       currentSpawnInterval t =
         ((\<lambda>c. max SPAWN_INTERVAL_MIN (c * (1 - SPAWN_RATE_INCREASE))) ^^
            (length (cows s) - length (cows t))) (currentSpawnInterval s)"])
  show "length (cows s) \<le> length (cows s) \<and>
       currentSpawnInterval s =
         ((\<lambda>c. max SPAWN_INTERVAL_MIN (c * (1 - SPAWN_RATE_INCREASE))) ^^
            (length (cows s) - length (cows s))) (currentSpawnInterval s)"
    by simp
next
  fix k and t :: game
  assume a: "length (cows t) \<le> length (cows s) \<and>
       currentSpawnInterval t =
         ((\<lambda>c. max SPAWN_INTERVAL_MIN (c * (1 - SPAWN_RATE_INCREASE))) ^^
            (length (cows s) - length (cows t))) (currentSpawnInterval s)"
    and k: "k < length (cows t)"
  from beamCow_cases [OF k]
  show "length (cows (beamCow k t)) \<le> length (cows s) \<and>
       currentSpawnInterval (beamCow k t) =
         ((\<lambda>c. max SPAWN_INTERVAL_MIN (c * (1 - SPAWN_RATE_INCREASE))) ^^
            (length (cows s) - length (cows (beamCow k t)))) (currentSpawnInterval s)"
  proof
    assume "length (cows (beamCow k t)) = length (cows t) \<and>
            currentSpawnInterval (beamCow k t) = currentSpawnInterval t"
    with a show ?thesis by simp
  next
    assume b: "Suc (length (cows (beamCow k t))) = length (cows t) \<and>
          currentSpawnInterval (beamCow k t) =
            max SPAWN_INTERVAL_MIN (currentSpawnInterval t * (1 - SPAWN_RATE_INCREASE))"
    then have "length (cows s) - length (cows (beamCow k t))
                 = Suc (length (cows s) - length (cows t))"
      using a by linarith
    with a b show ?thesis by simp
  qed
qed

lemma updateTractorBeam_interval:
  "length (cows (updateTractorBeam s)) \<le> length (cows s) \<and>
   currentSpawnInterval (updateTractorBeam s) =
     ((\<lambda>c. max SPAWN_INTERVAL_MIN (c * (1 - SPAWN_RATE_INCREASE))) ^^
        (length (cows s) - length (cows (updateTractorBeam s)))) (currentSpawnInterval s)"
proof (cases "KeyE (keys s)")
  case False
  then show ?thesis
    using updateTractorBeam_off [of s] by simp
next
  case True
  then obtain s3 where c: "cows s3 = cows s"
    and i: "currentSpawnInterval s3 = currentSpawnInterval s"
    and eq: "updateTractorBeam s = forEach (\<lambda>t. length (cows t)) beamCow s3"
    using updateTractorBeam_on [of s] by blast
  show ?thesis
    using beam_pass_interval [of 0 "length (cows s3)" s3]
    by (simp add: eq forEach_def c i)
qed

lemma moveUFO_shape:
  "\<exists>v p ho hd. moveUFO s =
      s\<lparr>velocity := v, ufo_position := p, hoverOffset := ho, hoverDirection := hd\<rparr>"
  unfolding moveUFO_def Let_def by (intro exI) (rule refl)

lemma moveUFO_frame [frame]:
  "cows (moveUFO s) = cows s" "jets (moveUFO s) = jets s" "missiles (moveUFO s) = missiles s"
  "health (moveUFO s) = health s" "score (moveUFO s) = score s" "keys (moveUFO s) = keys s"
  "currentSpawnInterval (moveUFO s) = currentSpawnInterval s"
  "currentState (moveUFO s) = currentState s" "rnd (moveUFO s) = rnd s"
  "tractorBeam_visible (moveUFO s) = tractorBeam_visible s"
  "lastJetSpawn (moveUFO s) = lastJetSpawn s" "events (moveUFO s) = events s"
proof -
  obtain v p ho hd where "moveUFO s =
      s\<lparr>velocity := v, ufo_position := p, hoverOffset := ho, hoverDirection := hd\<rparr>"
    using moveUFO_shape by blast
  then show
    "cows (moveUFO s) = cows s" "jets (moveUFO s) = jets s" "missiles (moveUFO s) = missiles s"
    "health (moveUFO s) = health s" "score (moveUFO s) = score s" "keys (moveUFO s) = keys s"
    "currentSpawnInterval (moveUFO s) = currentSpawnInterval s"
    "currentState (moveUFO s) = currentState s" "rnd (moveUFO s) = rnd s"
    "tractorBeam_visible (moveUFO s) = tractorBeam_visible s"
    "lastJetSpawn (moveUFO s) = lastJetSpawn s" "events (moveUFO s) = events s"
    by simp_all
qed

lemma updateUFO_cows:
  "cows (updateUFO s) = cows (updateTractorBeam (moveUFO s))"
  "currentSpawnInterval (updateUFO s) = currentSpawnInterval (updateTractorBeam (moveUFO s))"
  by (simp_all add: updateUFO_def Let_def frame)

lemma updateUFO_interval:
  "length (cows (updateUFO s)) \<le> length (cows s) \<and>
   currentSpawnInterval (updateUFO s) =
     ((\<lambda>c. max SPAWN_INTERVAL_MIN (c * (1 - SPAWN_RATE_INCREASE))) ^^
        (length (cows s) - length (cows (updateUFO s)))) (currentSpawnInterval s)"
  using updateTractorBeam_interval [of "moveUFO s"] by (simp add: updateUFO_cows frame)

lemma createCow_interval: "currentSpawnInterval (createCow s) = currentSpawnInterval s"
  by (simp add: createCow_def Let_def)

lemma createCows_interval: "currentSpawnInterval (createCows s) = currentSpawnInterval s"
proof -
  have "currentSpawnInterval ((createCow ^^ n) s) = currentSpawnInterval s" for n
    by (induction n) (simp_all add: createCow_interval)
  then show ?thesis by (simp add: createCows_def)
qed

lemma startGame_interval: "currentSpawnInterval (startGame now s) = SPAWN_INTERVAL_BASE"
  by (simp add: startGame_def Let_def frame createCows_interval)

text \<open>
  C6.  In a state whose spawn interval is at least the minimum, one frame applies the update
  \<open>c \<mapsto> max minInterval (c * (1 - rateIncrease))\<close> once for every creature the frame abducts
  (every creature that leaves the collection) and changes the interval in no other way.
  The interval therefore never grows in a frame and stays at or above the minimum; only
  \<^verbatim>\<open>startGame\<close> sets it back to the base value.
\<close>

theorem spawn_interval_tightened:
  assumes "SPAWN_INTERVAL_MIN \<le> currentSpawnInterval s"
  shows "currentSpawnInterval (animate now s) =
           ((\<lambda>c. max SPAWN_INTERVAL_MIN (c * (1 - SPAWN_RATE_INCREASE))) ^^
              (length (cows s) - length (cows (animate now s)))) (currentSpawnInterval s) \<and>
         SPAWN_INTERVAL_MIN \<le> currentSpawnInterval (animate now s) \<and>
         currentSpawnInterval (animate now s) \<le> currentSpawnInterval s \<and>
         currentSpawnInterval (startGame now s) = SPAWN_INTERVAL_BASE"
proof -
  have c: "length (cows (animate now s)) = (if isGameActive s then length (cows (updateUFO s))
             else length (cows s))"
    and i: "currentSpawnInterval (animate now s) =
         (if isGameActive s then currentSpawnInterval (updateUFO s) else currentSpawnInterval s)"
    by (simp_all add: animate_def frame)
  have eq: "currentSpawnInterval (animate now s) =
           ((\<lambda>c. max SPAWN_INTERVAL_MIN (c * (1 - SPAWN_RATE_INCREASE))) ^^
              (length (cows s) - length (cows (animate now s)))) (currentSpawnInterval s)"
    using updateUFO_interval [of s] by (simp add: c i)
  show ?thesis
    using tighten_funpow_bounds [OF assms, of "length (cows s) - length (cows (animate now s))"]
    by (simp add: eq [symmetric] startGame_interval)
qed

lemma vec_sel: "vx (vec a b c) = a" "vy (vec a b c) = b" "vz (vec a b c) = c"
  by (simp_all add: vec_def)

lemma distance_on_y: "distanceTo (vec a b c) (vec a d c) = \<bar>b - d\<bar>"
  by (simp add: distanceTo_def lengthV_def lengthSq_def subVectors_def vec_def)

lemma abductNow_fields:
  "keys abductNow = noKeys\<lparr>KeyE := True\<rparr>" "velocity abductNow = vec 0 0 0"
  "ufo_position abductNow = vec 0 20 0" "tractorBeam_visible abductNow"
  "cows abductNow = [risingCow]" "rnd abductNow = (\<lambda>_. 1 / 2)"
  "currentSpawnInterval abductNow = 5000" "score abductNow = 0"
  by (simp_all add: abductNow_def game0_def SPAWN_INTERVAL_BASE_def)

text \<open>
  An abduction that completes: the creature two units below the craft is pulled within the
  completion radius, leaves the collection, scores 100 and tightens the interval from 5000
  to 4500.
\<close>

lemma abduction_completes_example:
  "cows (updateTractorBeam abductNow) = [] \<and>
   score (updateTractorBeam abductNow) = 100 \<and>
   currentSpawnInterval (updateTractorBeam abductNow) = 4500"
  by (simp add: updateTractorBeam_def Let_def abductNow_fields noKeys_def random_def
      forEach_def frame beamCow_def risingCow_def lerp_def vec_sel distance_on_y
      BEAM_STRENGTH_def updateScore_def splice1_def SPAWN_INTERVAL_MIN_def
      SPAWN_RATE_INCREASE_def advance_def)

theorem spawn_interval_tightened_witness:
  "SPAWN_INTERVAL_MIN \<le> currentSpawnInterval abductNow \<and>
   currentSpawnInterval (animate 0 abductNow) =
     ((\<lambda>c. max SPAWN_INTERVAL_MIN (c * (1 - SPAWN_RATE_INCREASE))) ^^
        (1 - length (cows (animate 0 abductNow)))) 5000 \<and>
   SPAWN_INTERVAL_MIN \<le> currentSpawnInterval (animate 0 abductNow) \<and>
   currentSpawnInterval (animate 0 abductNow) \<le> 5000 \<and>
   currentSpawnInterval (startGame 0 abductNow) = SPAWN_INTERVAL_BASE"
proof -
  have h: "SPAWN_INTERVAL_MIN \<le> currentSpawnInterval abductNow"
    by (simp add: abductNow_fields SPAWN_INTERVAL_MIN_def)
  show ?thesis
    using spawn_interval_tightened [OF h, of 0] h by (simp add: abductNow_fields)
qed

section \<open>The particle engine: lifetimes and removal\<close>

lemma updateParticle_oneShot:
  assumes "oneShot ps"
  shows "plifetime (fst (updateParticle ps r ix p)) =
           (if plifetime p < s_lifetime (esettings ps) then Suc (plifetime p) else plifetime p)"
  using assms by (simp add: updateParticle_def Let_def)

lemma updateParticleList_oneShot:
  assumes "oneShot ps"
  shows "map plifetime (fst (updateParticleList ps r ix pl)) =
           map (\<lambda>p. if plifetime p < s_lifetime (esettings ps) then Suc (plifetime p)
                     else plifetime p) pl"
proof (induction pl arbitrary: ix)
  case Nil
  show ?case by simp
next
  case (Cons p pl)
  show ?case
    using updateParticle_oneShot [OF assms, of r ix p] Cons.IH
    by (simp split: prod.splits) (metis fst_conv)
qed

lemma updateParticles_fields:
  "eid (fst (updateParticles ps r ix)) = eid ps"
  "active (fst (updateParticles ps r ix)) = active ps"
  "oneShot (fst (updateParticles ps r ix)) = oneShot ps"
  "esettings (fst (updateParticles ps r ix)) = esettings ps"
  by (simp_all add: updateParticles_def Let_def split: prod.splits)

lemma updateParticles_oneShot:
  assumes "oneShot ps"
  shows "map plifetime (particles (fst (updateParticles ps r ix))) =
           map (\<lambda>p. if plifetime p < s_lifetime (esettings ps) then Suc (plifetime p)
                     else plifetime p) (particles ps)"
proof -
  have "particles (fst (updateParticles ps r ix)) =
          fst (updateParticleList (ps\<lparr>emissionCounter := (emissionCounter ps + 1) mod emissionRate ps\<rparr>)
                 r ix (particles ps))"
    by (simp add: updateParticles_def Let_def split: prod.splits)
  then show ?thesis
    using updateParticleList_oneShot
      [of "ps\<lparr>emissionCounter := (emissionCounter ps + 1) mod emissionRate ps\<rparr>" r ix "particles ps"]
      assms
    by simp
qed

lemma allDead_ages: "allDead ps = (\<forall>a \<in> set (map plifetime (particles ps)). s_lifetime (esettings ps) \<le> a)"
  by (auto simp add: allDead_def list_all_iff not_less)

lemma allDead_after:
  assumes "oneShot ps"
  shows "allDead (fst (updateParticles ps r ix)) =
           (\<forall>p \<in> set (particles ps). s_lifetime (esettings ps) \<le> Suc (plifetime p))"
  unfolding allDead_ages updateParticles_oneShot [OF assms] updateParticles_fields
  by auto

lemma ageBounded_ages:
  "ageBounded ps = (\<forall>a \<in> set (map plifetime (particles ps)). a \<le> s_lifetime (esettings ps))"
  by (auto simp add: ageBounded_def list_all_iff)

lemma ageBounded_after:
  assumes "oneShot ps" and "ageBounded ps"
  shows "ageBounded (fst (updateParticles ps r ix))"
  using assms(2)
  unfolding ageBounded_ages updateParticles_oneShot [OF assms(1)] updateParticles_fields
  by auto

lemma splice1_update: "splice1 i (xs[i := x]) = splice1 i xs"
  by (simp add: splice1_def)

lemma map_splice1: "map f (splice1 i xs) = splice1 i (map f xs)"
  by (simp add: splice1_def take_map drop_map)

lemma set_splice1_subset: "set (splice1 i xs) \<subseteq> set xs"
  unfolding splice1_def using set_take_subset [of i xs] set_drop_subset [of "Suc i" xs]
  by auto

lemma distinct_splice1: "distinct xs \<Longrightarrow> distinct (splice1 i xs)"
proof -
  assume d: "distinct xs"
  have "xs = take i xs @ drop i xs" by simp
  then have "set (take i xs) \<inter> set (drop i xs) = {}"
    using d by (metis distinct_append)
  moreover have "set (drop (Suc i) xs) \<subseteq> set (drop i xs)"
    by (metis drop_Suc set_drop_subset tl_drop drop_drop plus_1_eq_Suc)
  ultimately show ?thesis
    using d by (auto simp add: splice1_def)
qed

lemma nth_not_in_splice1:
  assumes "distinct xs" and "i < length xs"
  shows "xs ! i \<notin> set (splice1 i xs)"
proof -
  have "xs = take i xs @ xs ! i # drop (Suc i) xs"
    using assms(2) by (simp add: id_take_nth_drop)
  then have "distinct (take i xs @ xs ! i # drop (Suc i) xs)"
    using assms(1) by simp
  then show ?thesis
    by (auto simp add: splice1_def)
qed

lemma in_splice1:
  assumes "x \<in> set xs" and "x \<noteq> xs ! i" and "i < length xs"
  shows "x \<in> set (splice1 i xs)"
proof -
  have "xs = take i xs @ xs ! i # drop (Suc i) xs"
    using assms(3) by (simp add: id_take_nth_drop)
  then have "set xs = set (take i xs) \<union> {xs ! i} \<union> set (drop (Suc i) xs)"
    by (metis Un_insert_right list.simps(15) set_append sup_bot.right_neutral Un_assoc insert_is_Un)
  then show ?thesis
    using assms(1,2) by (auto simp add: splice1_def)
qed

lemma take_splice1: "take i (splice1 i xs) = take i xs"
  by (simp add: splice1_def min_def)

lemma in_update_other:
  assumes "x \<in> set xs" and "x \<noteq> xs ! i"
  shows "x \<in> set (xs[i := y])"
proof -
  obtain j where j: "j < length xs" "xs ! j = x"
    using assms(1) by (auto simp add: in_set_conv_nth)
  then have "j \<noteq> i" using assms(2) by auto
  then have "xs[i := y] ! j = x" using j by simp
  then show ?thesis using j by (metis length_list_update nth_mem)
qed

text \<open>The list and the scene after one turn of the loop of \<^verbatim>\<open>update\<close>.\<close>

lemma update_at_list:
  assumes "i < length (particleSystems s)"
  shows "particleSystems (update_at i s) =
     (if active (particleSystems s ! i) then
        (if oneShot (particleSystems s ! i) \<and>
            allDead (fst (updateParticles (particleSystems s ! i) (rnd s) (rndIx s)))
         then splice1 i (particleSystems s)
         else (particleSystems s)[i := fst (updateParticles (particleSystems s ! i) (rnd s) (rndIx s))])
      else particleSystems s)"
  using assms
  by (simp add: update_at_def Let_def splice1_update case_prod_beta updateParticles_fields)

lemma update_at_scene:
  assumes "i < length (particleSystems s)"
  shows "scene (update_at i s) =
     (if active (particleSystems s ! i) \<and> oneShot (particleSystems s ! i) \<and>
         allDead (fst (updateParticles (particleSystems s ! i) (rnd s) (rndIx s)))
      then scene s - {Points (eid (particleSystems s ! i))}
      else scene s)"
  using assms
  by (simp add: update_at_def Let_def case_prod_beta updateParticles_fields)

lemma update_at_outside:
  "\<not> i < length (particleSystems s) \<Longrightarrow> update_at i s = s"
  by (simp add: update_at_def)

lemma map_update_same:
  "i < length xs \<Longrightarrow> f y = f (xs ! i) \<Longrightarrow> map f (xs[i := y]) = map f xs"
  by (simp add: map_update list_update_same_conv)

lemma update_at_distinct:
  assumes "distinct (map eid (particleSystems s))"
  shows "distinct (map eid (particleSystems (update_at i s)))"
proof (cases "i < length (particleSystems s)")
  case False
  then show ?thesis using assms by (simp add: update_at_outside)
next
  case True
  have a: "distinct (map eid (splice1 i (particleSystems s)))"
    using assms by (simp add: map_splice1 distinct_splice1)
  have "map eid ((particleSystems s)[i := fst (updateParticles (particleSystems s ! i) (rnd s) (rndIx s))])
          = map eid (particleSystems s)"
    using True by (simp add: map_update_same updateParticles_fields)
  then show ?thesis
    using True a assms by (simp add: update_at_list)
qed

lemma update_at_shrinks:
  "eid ` set (particleSystems (update_at i s)) \<subseteq> eid ` set (particleSystems s) \<and>
   scene (update_at i s) \<subseteq> scene s"
proof (cases "i < length (particleSystems s)")
  case False
  then show ?thesis by (simp add: update_at_outside)
next
  case True
  have a: "eid ` set (splice1 i (particleSystems s)) \<subseteq> eid ` set (particleSystems s)"
    using set_splice1_subset [of i "particleSystems s"] by auto
  have "map eid ((particleSystems s)[i := fst (updateParticles (particleSystems s ! i) (rnd s) (rndIx s))])
          = map eid (particleSystems s)"
    using True by (simp add: map_update_same updateParticles_fields)
  then have b: "eid ` set ((particleSystems s)[i := fst (updateParticles (particleSystems s ! i) (rnd s) (rndIx s))])
          = eid ` set (particleSystems s)"
    by (metis set_map)
  show ?thesis
    using True a b by (auto simp add: update_at_list update_at_scene)
qed

lemma update_down_shrinks:
  "eid ` set (particleSystems (update_down i s)) \<subseteq> eid ` set (particleSystems s) \<and>
   scene (update_down i s) \<subseteq> scene s"
proof (induction i arbitrary: s)
  case 0
  show ?case by simp
next
  case (Suc i)
  have "eid ` set (particleSystems (update_down i (update_at i s)))
          \<subseteq> eid ` set (particleSystems s)"
    using Suc [of "update_at i s"] update_at_shrinks [of i s] by (meson order_trans)
  moreover have "scene (update_down i (update_at i s)) \<subseteq> scene s"
    using Suc [of "update_at i s"] update_at_shrinks [of i s] by (meson order_trans)
  ultimately show ?case by simp
qed

lemma update_down_distinct:
  "distinct (map eid (particleSystems s)) \<Longrightarrow>
   distinct (map eid (particleSystems (update_down i s)))"
  by (induction i arbitrary: s) (simp_all add: update_at_distinct)

subsection \<open>A stopped emitter\<close>

lemma update_at_keeps_stopped:
  assumes "distinct (map eid (particleSystems s))"
    and "e \<in> set (particleSystems s)" and "\<not> active e"
  shows "e \<in> set (particleSystems (update_at i s))"
    and "Points (eid e) \<in> scene s \<Longrightarrow> Points (eid e) \<in> scene (update_at i s)"
proof -
  show "e \<in> set (particleSystems (update_at i s))"
  proof (cases "i < length (particleSystems s)")
    case False
    then show ?thesis using assms by (simp add: update_at_outside)
  next
    case True
    show ?thesis
    proof (cases "active (particleSystems s ! i)")
      case False
      then show ?thesis using True assms by (simp add: update_at_list)
    next
      case act: True
      then have ne: "e \<noteq> particleSystems s ! i" using assms(3) by auto
      show ?thesis
        using True act in_splice1 [OF assms(2) ne True] in_update_other [OF assms(2) ne]
        by (simp add: update_at_list)
    qed
  qed
next
  assume sc: "Points (eid e) \<in> scene s"
  show "Points (eid e) \<in> scene (update_at i s)"
  proof (cases "i < length (particleSystems s)")
    case False
    then show ?thesis using sc by (simp add: update_at_outside)
  next
    case True
    show ?thesis
    proof (cases "active (particleSystems s ! i)")
      case False
      then show ?thesis using True sc by (simp add: update_at_scene)
    next
      case act: True
      then have ne: "e \<noteq> particleSystems s ! i" using assms(3) by auto
      have "particleSystems s ! i \<in> set (particleSystems s)" using True by simp
      then have "eid e \<noteq> eid (particleSystems s ! i)"
        using assms(1,2) ne by (meson distinct_map inj_onD)
      then show ?thesis using True sc by (simp add: update_at_scene)
    qed
  qed
qed

lemma update_down_keeps_stopped:
  assumes "distinct (map eid (particleSystems s))"
    and "e \<in> set (particleSystems s)" and "\<not> active e" and "Points (eid e) \<in> scene s"
  shows "e \<in> set (particleSystems (update_down i s)) \<and> Points (eid e) \<in> scene (update_down i s)"
  using assms
proof (induction i arbitrary: s)
  case 0
  then show ?case by simp
next
  case (Suc i)
  show ?case
    using Suc.IH [of "update_at i s"] Suc.prems
      update_at_distinct [of s i] update_at_keeps_stopped [of s e i]
    by simp
qed

lemma update_distinct:
  "distinct (map eid (particleSystems s)) \<Longrightarrow> distinct (map eid (particleSystems (update s)))"
  by (simp add: update_def update_down_distinct)

lemma update_keeps_stopped:
  assumes "distinct (map eid (particleSystems s))"
    and "e \<in> set (particleSystems s)" and "\<not> active e" and "Points (eid e) \<in> scene s"
  shows "e \<in> set (particleSystems (update s)) \<and> Points (eid e) \<in> scene (update s)"
  unfolding update_def using assms by (rule update_down_keeps_stopped)

lemma updates_keep_stopped:
  assumes "distinct (map eid (particleSystems s))"
    and "e \<in> set (particleSystems s)" and "\<not> active e" and "Points (eid e) \<in> scene s"
  shows "distinct (map eid (particleSystems ((update ^^ n) s))) \<and>
         e \<in> set (particleSystems ((update ^^ n) s)) \<and>
         Points (eid e) \<in> scene ((update ^^ n) s)"
proof (induction n)
  case 0
  show ?case using assms by simp
next
  case (Suc n)
  have "(update ^^ Suc n) s = update ((update ^^ n) s)" by simp
  then show ?case
    using Suc update_keeps_stopped [of "(update ^^ n) s" e] assms(3)
      update_distinct [of "(update ^^ n) s"]
    by (simp del: funpow.simps)
qed

lemma stopEmitter_list:
  "map eid (particleSystems (stopEmitter r s)) = map eid (particleSystems s)"
  "scene (stopEmitter r s) = scene s"
  by (simp_all add: stopEmitter_def setActive_def split: option.splits)

lemma stopEmitter_stops:
  assumes "e \<in> set (particleSystems s)"
  shows "e\<lparr>active := False\<rparr> \<in> set (particleSystems (stopEmitter (Some (eid e)) s))"
proof -
  have "setActive False (eid e) e = e\<lparr>active := False\<rparr>"
    by (simp add: setActive_def)
  then show ?thesis
    using assms by (auto simp add: stopEmitter_def image_iff intro!: bexI [of _ e])
qed

lemma indexOf_finds:
  "i \<in> eid ` set xs \<Longrightarrow>
   \<exists>k. indexOf i xs = Some k \<and> k < length xs \<and> (map eid xs) ! k = i"
proof (induction xs)
  case Nil
  then show ?case by simp
next
  case (Cons x xs)
  show ?case
  proof (cases "eid x = i")
    case True
    then show ?thesis by simp
  next
    case False
    then have "i \<in> eid ` set xs" using Cons.prems by auto
    then obtain k where "indexOf i xs = Some k" "k < length xs" "(map eid xs) ! k = i"
      using Cons.IH by blast
    then show ?thesis using False by simp
  qed
qed

lemma removeEmitter_releases:
  assumes "distinct (map eid (particleSystems s))" and "i \<in> eid ` set (particleSystems s)"
  shows "i \<notin> eid ` set (particleSystems (removeEmitter (Some i) s)) \<and>
         Points i \<notin> scene (removeEmitter (Some i) s)"
proof -
  obtain k where k: "indexOf i (particleSystems s) = Some k" "k < length (particleSystems s)"
    "(map eid (particleSystems s)) ! k = i"
    using indexOf_finds [OF assms(2)] by blast
  have "(map eid (particleSystems s)) ! k \<notin> set (splice1 k (map eid (particleSystems s)))"
    using assms(1) k(2) nth_not_in_splice1 [of "map eid (particleSystems s)" k]
    by (simp del: nth_map)
  then have "i \<notin> set (map eid (splice1 k (particleSystems s)))"
    using k(3) by (simp add: map_splice1)
  then show ?thesis
    using k(1) by (simp add: removeEmitter_def)
qed

lemma clear_releases:
  "particleSystems (clear s) = []"
  "e \<in> set (particleSystems s) \<Longrightarrow> Points (eid e) \<notin> scene (clear s)"
  by (simp_all add: clear_def)

text \<open>
  C10.  Take any emitter of the list (its identity being unique in the list, its points
  object in the scene), one-shot or not and whatever the ages of its particles, and call
  \<^verbatim>\<open>stopEmitter\<close> on it.  However many \<^verbatim>\<open>update\<close> calls follow, the emitter is still in the
  list, exactly as \<^verbatim>\<open>stopEmitter\<close> left it (its particles do not age), and its points object is
  still in the scene.  \<^verbatim>\<open>removeEmitter\<close> on it, or \<^verbatim>\<open>clear\<close>, releases it.
\<close>

theorem stopped_emitter_is_kept:
  assumes "distinct (map eid (particleSystems s))" and "e \<in> set (particleSystems s)"
    and "Points (eid e) \<in> scene s"
  shows "e\<lparr>active := False\<rparr> \<in> set (particleSystems ((update ^^ n) (stopEmitter (Some (eid e)) s))) \<and>
         Points (eid e) \<in> scene ((update ^^ n) (stopEmitter (Some (eid e)) s)) \<and>
         eid e \<notin> eid ` set (particleSystems
                    (removeEmitter (Some (eid e)) ((update ^^ n) (stopEmitter (Some (eid e)) s)))) \<and>
         Points (eid e) \<notin> scene
                    (removeEmitter (Some (eid e)) ((update ^^ n) (stopEmitter (Some (eid e)) s))) \<and>
         particleSystems (clear ((update ^^ n) (stopEmitter (Some (eid e)) s))) = [] \<and>
         Points (eid e) \<notin> scene (clear ((update ^^ n) (stopEmitter (Some (eid e)) s)))"
proof -
  define s0 where "s0 = stopEmitter (Some (eid e)) s"
  define t where "t = (update ^^ n) s0"
  have d: "distinct (map eid (particleSystems s0))"
    using assms(1) by (simp add: s0_def stopEmitter_list)
  have m: "e\<lparr>active := False\<rparr> \<in> set (particleSystems s0)"
    using assms(2) unfolding s0_def by (rule stopEmitter_stops)
  have sc: "Points (eid (e\<lparr>active := False\<rparr>)) \<in> scene s0"
    using assms(3) by (simp add: s0_def stopEmitter_list)
  have k: "distinct (map eid (particleSystems t)) \<and> e\<lparr>active := False\<rparr> \<in> set (particleSystems t) \<and>
           Points (eid (e\<lparr>active := False\<rparr>)) \<in> scene t"
    unfolding t_def using d m _ sc by (rule updates_keep_stopped) simp
  then have i: "eid e \<in> eid ` set (particleSystems t)"
    by (metis (no_types, lifting) emitter.select_convs(1) emitter.surjective
        emitter.update_convs(5) image_eqI)
  have r: "eid e \<notin> eid ` set (particleSystems (removeEmitter (Some (eid e)) t)) \<and>
           Points (eid e) \<notin> scene (removeEmitter (Some (eid e)) t)"
    using k i by (simp add: removeEmitter_releases)
  have c: "Points (eid e) \<notin> scene (clear t)"
    using k clear_releases(2) [of "e\<lparr>active := False\<rparr>" t] by simp
  show ?thesis
    using k r c by (simp add: t_def [symmetric] s0_def [symmetric] clear_releases(1))
qed

lemma oneSparkle_fields:
  "map eid (particleSystems oneSparkle) = [100]" "scene oneSparkle = {Points 100}"
  "particleSystems oneSparkle \<noteq> []" "list_all oneShot (particleSystems oneSparkle)"
  by (simp_all add: oneSparkle_def snd_createEmitter game0_def sparkleOptions_def noOptions_def)

theorem stopped_emitter_is_kept_witness:
  "distinct (map eid (particleSystems oneSparkle)) \<and>
   hd (particleSystems oneSparkle) \<in> set (particleSystems oneSparkle) \<and>
   Points 100 \<in> scene oneSparkle \<and>
   oneShot (hd (particleSystems oneSparkle)) \<and>
   (hd (particleSystems oneSparkle))\<lparr>active := False\<rparr>
      \<in> set (particleSystems ((update ^^ 30) (stopEmitter (Some 100) oneSparkle))) \<and>
   Points 100 \<in> scene ((update ^^ 30) (stopEmitter (Some 100) oneSparkle)) \<and>
   Points 100 \<notin> scene (removeEmitter (Some 100) ((update ^^ 30) (stopEmitter (Some 100) oneSparkle)))"
proof -
  have e: "eid (hd (particleSystems oneSparkle)) = 100"
    and o: "oneShot (hd (particleSystems oneSparkle))"
    using oneSparkle_fields by (cases "particleSystems oneSparkle"; simp)+
  have h1: "distinct (map eid (particleSystems oneSparkle))"
    by (simp add: oneSparkle_fields)
  have h2: "hd (particleSystems oneSparkle) \<in> set (particleSystems oneSparkle)"
    by (simp add: oneSparkle_fields)
  have h3: "Points (eid (hd (particleSystems oneSparkle))) \<in> scene oneSparkle"
    by (simp add: e oneSparkle_fields)
  show ?thesis
    using stopped_emitter_is_kept [OF h1 h2 h3, of 30] h1 h2 o
    by (simp add: e oneSparkle_fields del: funpow.simps)
qed

subsection \<open>One-shot emitters\<close>

lemma update_at_preserves:
  assumes step: "\<And>ps r ix. R ps \<Longrightarrow> R (fst (updateParticles ps r ix))"
    and "list_all R (particleSystems s)"
  shows "list_all R (particleSystems (update_at i s))"
proof (cases "i < length (particleSystems s)")
  case False
  then show ?thesis using assms(2) by (simp add: update_at_outside)
next
  case True
  have all: "\<forall>x \<in> set (particleSystems s). R x"
    using assms(2) by (simp add: list_all_iff)
  then have "R (particleSystems s ! i)" using True by simp
  then have r: "R (fst (updateParticles (particleSystems s ! i) (rnd s) (rndIx s)))"
    by (rule step)
  have a: "\<forall>x \<in> set (splice1 i (particleSystems s)). R x"
    using all set_splice1_subset [of i "particleSystems s"] by blast
  have b: "\<forall>x \<in> set ((particleSystems s)[i := fst (updateParticles (particleSystems s ! i) (rnd s) (rndIx s))]). R x"
    using all r set_update_subset_insert [of "particleSystems s" i] by blast
  show ?thesis
    using True all a b by (simp add: update_at_list list_all_iff)
qed

lemma update_preserves:
  assumes step: "\<And>ps r ix. R ps \<Longrightarrow> R (fst (updateParticles ps r ix))"
    and "list_all R (particleSystems s)"
  shows "list_all R (particleSystems (update s))"
proof -
  have "list_all R (particleSystems t) \<Longrightarrow> list_all R (particleSystems (update_down i t))" for i t
    by (induction i arbitrary: t) (simp_all add: update_at_preserves [of R, OF step])
  then show ?thesis using assms(2) by (simp add: update_def)
qed

lemma oneShotBounded_alt:
  "oneShotBounded s = list_all (\<lambda>ps. \<not> oneShot ps \<or> ageBounded ps) (particleSystems s)"
  by (auto simp add: oneShotBounded_def list_all_iff)

lemma update_oneShotBounded:
  assumes "oneShotBounded s"
  shows "oneShotBounded (update s)"
  unfolding oneShotBounded_alt
proof (rule update_preserves)
  show "list_all (\<lambda>ps. \<not> oneShot ps \<or> ageBounded ps) (particleSystems s)"
    using assms by (simp add: oneShotBounded_alt)
next
  fix ps r ix
  assume "\<not> oneShot ps \<or> ageBounded ps"
  then show "\<not> oneShot (fst (updateParticles ps r ix)) \<or> ageBounded (fst (updateParticles ps r ix))"
    using ageBounded_after [of ps r ix] by (auto simp add: updateParticles_fields)
qed

lemma plifetime_newParticle: "plifetime (newParticle st dir r ix) = 0"
  by (simp add: newParticle_def Let_def)

lemma createEmitter_oneShotBounded:
  assumes "oneShotBounded s"
  shows "oneShotBounded (snd (createEmitter t p d opts s))"
  using assms
  by (simp add: oneShotBounded_def snd_createEmitter ageBounded_def list_all_iff
      plifetime_newParticle)

text \<open>
  After the loop has run from index \<open>i\<close> down to 0, no entry below the entries it has not
  reached is due: an active one-shot emitter whose particles are all dead after its turn is
  spliced out in that turn.
\<close>

lemma update_at_processed:
  assumes "i < length (particleSystems s)"
    and "\<forall>j. Suc i \<le> j \<and> j < length (particleSystems s) \<longrightarrow> notDue (particleSystems s ! j)"
  shows "\<forall>j. i \<le> j \<and> j < length (particleSystems (update_at i s))
              \<longrightarrow> notDue (particleSystems (update_at i s) ! j)"
proof (cases "active (particleSystems s ! i)")
  case False
  then have "notDue (particleSystems s ! i)" by (simp add: notDue_def)
  then have "\<forall>j. i \<le> j \<and> j < length (particleSystems s) \<longrightarrow> notDue (particleSystems s ! j)"
    using assms(2) by (metis Suc_leI le_neq_implies_less)
  then show ?thesis using False assms(1) by (simp add: update_at_list)
next
  case act: True
  define ps' where "ps' = fst (updateParticles (particleSystems s ! i) (rnd s) (rndIx s))"
  show ?thesis
  proof (cases "oneShot (particleSystems s ! i) \<and> allDead ps'")
    case True
    then have l: "particleSystems (update_at i s) = splice1 i (particleSystems s)"
      using act assms(1) by (simp add: update_at_list ps'_def)
    have "splice1 i (particleSystems s) ! j = particleSystems s ! Suc j"
      if "i \<le> j" "j < length (splice1 i (particleSystems s))" for j
      using that assms(1) by (simp add: splice1_def nth_append min_def)
    moreover have "Suc j < length (particleSystems s)"
      if "j < length (splice1 i (particleSystems s))" for j
      using that assms(1) by (simp add: splice1_def)
    ultimately show ?thesis
      using assms(2) by (simp add: l)
  next
    case False
    then have l: "particleSystems (update_at i s) = (particleSystems s)[i := ps']"
      using act assms(1) by (auto simp add: update_at_list ps'_def)
    have "notDue ps'"
      using False by (auto simp add: notDue_def ps'_def updateParticles_fields)
    then show ?thesis
      using assms by (auto simp add: l nth_list_update)
  qed
qed

lemma update_down_processed:
  assumes "i \<le> length (particleSystems s)"
    and "\<forall>j. i \<le> j \<and> j < length (particleSystems s) \<longrightarrow> notDue (particleSystems s ! j)"
  shows "list_all notDue (particleSystems (update_down i s))"
  using assms
proof (induction i arbitrary: s)
  case 0
  then show ?case by (simp add: list_all_length)
next
  case (Suc i)
  have i: "i < length (particleSystems s)" using Suc.prems(1) by simp
  have len: "i \<le> length (particleSystems (update_at i s))"
    using i by (auto simp add: update_at_list splice1_def)
  show ?case
    using Suc.IH [OF len update_at_processed [OF i Suc.prems(2)]] by simp
qed

lemma update_no_due: "dueEmitters (update s) = []"
proof -
  have "list_all notDue (particleSystems (update s))"
    unfolding update_def by (rule update_down_processed) auto
  then show ?thesis
    by (simp add: dueEmitters_def notDue_def list_all_iff filter_empty_conv)
qed

lemma update_at_removes:
  assumes "distinct (map eid (particleSystems s))" and "j < length (particleSystems s)"
    and "active (particleSystems s ! j)" and "oneShot (particleSystems s ! j)"
    and "lastFrame (particleSystems s ! j)"
  shows "eid (particleSystems s ! j) \<notin> eid ` set (particleSystems (update_at j s)) \<and>
         Points (eid (particleSystems s ! j)) \<notin> scene (update_at j s)"
proof -
  have dead: "allDead (fst (updateParticles (particleSystems s ! j) (rnd s) (rndIx s)))"
    using assms(4,5) by (simp add: allDead_after lastFrame_def list_all_iff)
  have "(map eid (particleSystems s)) ! j \<notin> set (splice1 j (map eid (particleSystems s)))"
    using assms(1,2) nth_not_in_splice1 [of "map eid (particleSystems s)" j] by simp
  then have "eid (particleSystems s ! j) \<notin> set (map eid (splice1 j (particleSystems s)))"
    using assms(2) by (simp add: map_splice1)
  then show ?thesis
    using assms(2,3,4) dead by (simp add: update_at_list update_at_scene)
qed

lemma update_at_below:
  assumes "j < i" and "i < length (particleSystems s)"
  shows "particleSystems (update_at i s) ! j = particleSystems s ! j"
    and "i \<le> length (particleSystems (update_at i s))"
  using assms by (auto simp add: update_at_list splice1_def nth_append)

lemma update_down_removes:
  assumes "distinct (map eid (particleSystems s))" and "j < i" and "i \<le> length (particleSystems s)"
    and "particleSystems s ! j = e" and "active e" and "oneShot e" and "lastFrame e"
  shows "eid e \<notin> eid ` set (particleSystems (update_down i s)) \<and>
         Points (eid e) \<notin> scene (update_down i s)"
  using assms
proof (induction i arbitrary: s)
  case 0
  then show ?case by simp
next
  case (Suc i)
  show ?case
  proof (cases "j = i")
    case True
    have "eid e \<notin> eid ` set (particleSystems (update_at i s)) \<and>
          Points (eid e) \<notin> scene (update_at i s)"
      using update_at_removes [of s j] Suc.prems True by simp
    then show ?thesis
      using update_down_shrinks [of i "update_at i s"] by auto
  next
    case False
    then have ji: "j < i" using Suc.prems(2) by simp
    have il: "i < length (particleSystems s)" using Suc.prems(3) by simp
    show ?thesis
      using Suc.IH [of "update_at i s"] update_at_distinct [OF Suc.prems(1), of i]
        update_at_below [OF ji il] ji Suc.prems(4,5,6,7)
      by simp
  qed
qed

lemma update_removes:
  assumes "distinct (map eid (particleSystems s))" and "e \<in> set (particleSystems s)"
    and "active e" and "oneShot e" and "lastFrame e"
  shows "eid e \<notin> eid ` set (particleSystems (update s)) \<and> Points (eid e) \<notin> scene (update s)"
proof -
  obtain j where "j < length (particleSystems s)" "particleSystems s ! j = e"
    using assms(2) by (auto simp add: in_set_conv_nth)
  then show ?thesis
    unfolding update_def
    using update_down_removes [of s j "length (particleSystems s)" e] assms by simp
qed

text \<open>
  C7 (as amended).  If no particle of a one-shot emitter in the list is older than its
  lifetime, the same holds after \<^verbatim>\<open>update\<close> and after \<^verbatim>\<open>createEmitter\<close>.  After every
  \<^verbatim>\<open>update\<close> call the list holds no emitter that is active, one-shot and has every particle
  dead.  And an active one-shot emitter of the list (identities being unique) whose particles
  are all dead, or die with the increment of this call, is gone from the list after the
  call, and its points object is gone from the scene.
\<close>

theorem one_shot_lifetime:
  "(oneShotBounded s \<longrightarrow>
      oneShotBounded (update s) \<and> oneShotBounded (snd (createEmitter t p d opts s))) \<and>
   dueEmitters (update s) = [] \<and>
   (distinct (map eid (particleSystems s)) \<and> e \<in> set (particleSystems s) \<and>
    active e \<and> oneShot e \<and> lastFrame e \<longrightarrow>
      eid e \<notin> eid ` set (particleSystems (update s)) \<and> Points (eid e) \<notin> scene (update s))"
  using update_oneShotBounded [of s] createEmitter_oneShotBounded [of s t p d opts]
    update_no_due [of s] update_removes [of s e]
  by blast

lemma briefSparkle_fields:
  "map eid (particleSystems briefSparkle) = [100]"
  "particleSystems briefSparkle \<noteq> []"
  "list_all active (particleSystems briefSparkle)"
  "list_all oneShot (particleSystems briefSparkle)"
  "list_all lastFrame (particleSystems briefSparkle)"
  "list_all ageBounded (particleSystems briefSparkle)"
  "Points 100 \<in> scene briefSparkle"
  by (simp_all add: briefSparkle_def snd_createEmitter game0_def sparkleOptions_def
      noOptions_def lastFrame_def ageBounded_def mergeSettings_def list_all_iff
      plifetime_newParticle)

theorem one_shot_lifetime_witness:
  "oneShotBounded briefSparkle \<and>
   oneShotBounded (update briefSparkle) \<and>
   oneShotBounded (snd (createEmitter sparkle (vec 0 10 0) (vec 0 1 0) (sparkleOptions 5) briefSparkle)) \<and>
   dueEmitters (update briefSparkle) = [] \<and>
   distinct (map eid (particleSystems briefSparkle)) \<and>
   hd (particleSystems briefSparkle) \<in> set (particleSystems briefSparkle) \<and>
   active (hd (particleSystems briefSparkle)) \<and> oneShot (hd (particleSystems briefSparkle)) \<and>
   lastFrame (hd (particleSystems briefSparkle)) \<and>
   Points 100 \<in> scene briefSparkle \<and>
   100 \<notin> eid ` set (particleSystems (update briefSparkle)) \<and>
   Points 100 \<notin> scene (update briefSparkle)"
proof -
  obtain e where l: "particleSystems briefSparkle = [e]"
    using briefSparkle_fields(1) by (cases "particleSystems briefSparkle") auto
  have e: "eid e = 100" "active e" "oneShot e" "lastFrame e" "ageBounded e"
    using briefSparkle_fields by (simp_all add: l)
  have b: "oneShotBounded briefSparkle"
    by (simp add: oneShotBounded_def l e)
  show ?thesis
    using one_shot_lifetime
      [of briefSparkle sparkle "vec 0 10 0" "vec 0 1 0" "sparkleOptions 5" e]
      b e briefSparkle_fields(7)
    by (simp add: l)
qed

lemma update_idle:
  assumes "particleSystems s = [e]" and "\<not> active e"
  shows "update s = s"
  using assms by (simp add: update_def update_at_def)

lemma stoppedExpired_list:
  "\<exists>e. particleSystems stoppedExpired = [e] \<and> \<not> active e \<and> oneShot e \<and> allDead e \<and>
        eid e = 100 \<and> length (particles e) = 5"
  by (simp add: stoppedExpired_def stopEmitter_def snd_createEmitter game0_def setActive_def
      sparkleOptions_def noOptions_def allDead_def mergeSettings_def list_all_iff
      plifetime_newParticle particleTypes_def)

lemma stoppedEmpty_list:
  "\<exists>e. particleSystems stoppedEmpty = [e] \<and> \<not> active e \<and> oneShot e \<and> allDead e \<and>
        eid e = 100"
  by (simp add: stoppedEmpty_def stopEmitter_def ps_createExplosion_def snd_createEmitter
      game0_def setActive_def noOptions_def allDead_def mergeSettings_def)

text \<open>
  C7 (as stated) fails for a stopped emitter.  A one-shot burst created with lifetime 0 has
  five particles, all of them at their lifetime; an explosion of size 0 has no particle at
  all.  Stopped right after creation, either is still in the list and in the scene after
  two \<^verbatim>\<open>update\<close> calls.
\<close>

theorem stopped_one_shot_not_removed:
  "list_all oneShot (particleSystems stoppedExpired) \<and>
   list_all allDead (particleSystems stoppedExpired) \<and>
   map (length \<circ> particles) (particleSystems stoppedExpired) = [5] \<and>
   map eid (particleSystems (update (update stoppedExpired))) = [100] \<and>
   Points 100 \<in> scene (update (update stoppedExpired)) \<and>
   list_all oneShot (particleSystems stoppedEmpty) \<and>
   list_all allDead (particleSystems stoppedEmpty) \<and>
   map eid (particleSystems (update (update stoppedEmpty))) = [100] \<and>
   Points 100 \<in> scene (update (update stoppedEmpty))"
proof -
  obtain e where e: "particleSystems stoppedExpired = [e]" "\<not> active e" "oneShot e" "allDead e"
    "eid e = 100" "length (particles e) = 5"
    using stoppedExpired_list by blast
  obtain e' where e': "particleSystems stoppedEmpty = [e']" "\<not> active e'" "oneShot e'"
    "allDead e'" "eid e' = 100"
    using stoppedEmpty_list by blast
  have s1: "Points 100 \<in> scene stoppedExpired"
    by (simp add: stoppedExpired_def stopEmitter_def snd_createEmitter game0_def)
  have s2: "Points 100 \<in> scene stoppedEmpty"
    by (simp add: stoppedEmpty_def stopEmitter_def ps_createExplosion_def snd_createEmitter
        game0_def)
  show ?thesis
    using e e' s1 s2 by (simp add: update_idle [of stoppedExpired e] update_idle [of stoppedEmpty e'])
qed

section \<open>Abduction progress over consecutive frames\<close>

































section \<open>Release of emitters and engine sounds at removal\<close>

lemma set_splice1_distinct:
  assumes "distinct xs" and "k < length xs"
  shows "set (splice1 k xs) = set xs - {xs ! k}"
proof -
  have x: "xs = take k xs @ xs ! k # drop (Suc k) xs"
    using assms(2) by (simp add: id_take_nth_drop)
  then have "distinct (take k xs @ xs ! k # drop (Suc k) xs)"
    using assms(1) by simp
  moreover have "set xs = set (take k xs) \<union> {xs ! k} \<union> set (drop (Suc k) xs)"
    by (subst x) (simp only: set_append set_simps, blast)
  ultimately show ?thesis
    by (auto simp add: splice1_def)
qed

text \<open>
  A traversal whose callback either keeps the keys of the registry or splices the current
  one out, adding \<open>w\<close> of that key to a counter: afterwards the counter has grown by the sum
  of \<open>w\<close> over the keys that left the registry.
\<close>

lemma pass_counts:
  fixes keyl :: "'s \<Rightarrow> 'k list" and cnt :: "'s \<Rightarrow> nat"
  assumes len: "\<And>t. len t = length (keyl t)"
    and d: "distinct (keyl s)"
    and step: "\<And>k t. k < length (keyl t) \<Longrightarrow>
         (keyl (cb k t) = keyl t \<and> cnt (cb k t) = cnt t) \<or>
         (keyl (cb k t) = splice1 k (keyl t) \<and> cnt (cb k t) = cnt t + w (keyl t ! k))"
  shows "set (keyl (forEach_from len cb k0 n s)) \<subseteq> set (keyl s) \<and>
         distinct (keyl (forEach_from len cb k0 n s)) \<and>
         cnt (forEach_from len cb k0 n s)
           = cnt s + sum w (set (keyl s) - set (keyl (forEach_from len cb k0 n s)))"
proof (rule forEach_from_invariant
    [where P = "\<lambda>t. set (keyl t) \<subseteq> set (keyl s) \<and> distinct (keyl t) \<and>
                     cnt t = cnt s + sum w (set (keyl s) - set (keyl t))"])
  show "set (keyl s) \<subseteq> set (keyl s) \<and> distinct (keyl s) \<and>
        cnt s = cnt s + sum w (set (keyl s) - set (keyl s))"
    using d by simp
next
  fix k t
  assume inv: "set (keyl t) \<subseteq> set (keyl s) \<and> distinct (keyl t) \<and>
               cnt t = cnt s + sum w (set (keyl s) - set (keyl t))"
    and "k < len t"
  then have k: "k < length (keyl t)" by (simp add: len)
  from step [OF k]
  show "set (keyl (cb k t)) \<subseteq> set (keyl s) \<and> distinct (keyl (cb k t)) \<and>
        cnt (cb k t) = cnt s + sum w (set (keyl s) - set (keyl (cb k t)))"
  proof
    assume "keyl (cb k t) = keyl t \<and> cnt (cb k t) = cnt t"
    then show ?thesis using inv by simp
  next
    assume r: "keyl (cb k t) = splice1 k (keyl t) \<and> cnt (cb k t) = cnt t + w (keyl t ! k)"
    have st: "set (keyl (cb k t)) = set (keyl t) - {keyl t ! k}"
      using r inv k by (simp add: set_splice1_distinct)
    have mem: "keyl t ! k \<in> set (keyl t)" using k by simp
    have "set (keyl s) - set (keyl (cb k t)) = insert (keyl t ! k) (set (keyl s) - set (keyl t))"
      using st mem inv by auto
    moreover have "keyl t ! k \<notin> set (keyl s) - set (keyl t)" using mem by simp
    ultimately have "sum w (set (keyl s) - set (keyl (cb k t)))
                       = w (keyl t ! k) + sum w (set (keyl s) - set (keyl t))"
      by simp
    moreover have "distinct (keyl (cb k t))" using r inv by (simp add: distinct_splice1)
    moreover have "set (keyl (cb k t)) \<subseteq> set (keyl s)" using st inv by blast
    ultimately show ?thesis using r inv by simp
  qed
qed

lemma isRelease_other:
  assumes "isRelease x"
  shows "Play a b \<noteq> x" "Stop a b \<noteq> x" "ShakeScreen r \<noteq> x" "GameEnded \<noteq> x"
  using assms by (cases x; simp add: isRelease_def)+

lemma count_createExplosion:
  "isRelease x \<Longrightarrow> count_list (events (createExplosion p n s)) x = count_list (events s) x"
  by (simp add: events_createExplosion isRelease_other)

lemma count_damagePlayer:
  "isRelease x \<Longrightarrow> count_list (events (damagePlayer s)) x = count_list (events s) x"
  by (simp add: events_damagePlayer isRelease_other)

lemma events_createMissileModel:
  "events (createMissileModel p d s) = events s @ [Play ''jet'' ''missile'']"
  by (simp add: createMissileModel_def createEmitter_def Let_def emit_def)

lemma count_createMissileModel:
  "isRelease x \<Longrightarrow> count_list (events (createMissileModel p d s)) x = count_list (events s) x"
  by (simp add: events_createMissileModel isRelease_other)

lemma events_release_jet:
  "events (releaseJetEmitter j (stopEngineSound j s)) = events s @ jetRelease (jetKey j)"
  by (simp add: releaseJetEmitter_def stopEngineSound_def jetRelease_def jetKey_def frame
      split: option.splits)

lemma events_release_missile:
  "events (releaseMissileEmitter m s) = events s @ missileRelease (missileKey m)"
  by (simp add: releaseMissileEmitter_def missileRelease_def missileKey_def frame
      split: option.splits)

lemma hitJet_step:
  assumes "isRelease x" and "k < length (map jetKey (jets t))"
  shows "(map jetKey (jets (hitJet k t)) = map jetKey (jets t) \<and>
          count_list (events (hitJet k t)) x = count_list (events t) x) \<or>
         (map jetKey (jets (hitJet k t)) = splice1 k (map jetKey (jets t)) \<and>
          count_list (events (hitJet k t)) x
            = count_list (events t) x + count_list (jetRelease (map jetKey (jets t) ! k)) x)"
proof (cases "distanceTo (position (jets t ! k)) (ufo_position t) < ufo_radius t + radius (jets t ! k)")
  case True
  have "events (hitJet k t) = events (damagePlayer (removeJetAt k (jets t ! k)
          (releaseJetEmitter (jets t ! k) (stopEngineSound (jets t ! k)
             (createExplosion (position (jets t ! k)) 3 t)))))"
    using True by (simp add: hitJet_def Let_def)
  then have "count_list (events (hitJet k t)) x
      = count_list (events t) x + count_list (jetRelease (jetKey (jets t ! k))) x"
    using assms(1)
    by (simp add: count_damagePlayer frame events_release_jet count_createExplosion)
  then show ?thesis
    using True assms(2) by (simp add: frame map_splice1)
next
  case False
  then show ?thesis by (simp add: hitJet_def Let_def)
qed

lemma hitMissile_step:
  assumes "isRelease x" and "k < length (map missileKey (missiles t))"
  shows "(map missileKey (missiles (hitMissile k t)) = map missileKey (missiles t) \<and>
          count_list (events (hitMissile k t)) x = count_list (events t) x) \<or>
         (map missileKey (missiles (hitMissile k t)) = splice1 k (map missileKey (missiles t)) \<and>
          count_list (events (hitMissile k t)) x
            = count_list (events t) x
              + count_list (missileRelease (map missileKey (missiles t) ! k)) x)"
proof (cases "distanceTo (position (missiles t ! k)) (ufo_position t)
                < ufo_radius t + radius (missiles t ! k)")
  case True
  have "events (hitMissile k t) = events (damagePlayer (removeMissileAt k (missiles t ! k)
          (releaseMissileEmitter (missiles t ! k)
             (createExplosion (position (missiles t ! k)) 2 t))))"
    using True by (simp add: hitMissile_def Let_def)
  then have "count_list (events (hitMissile k t)) x
      = count_list (events t) x + count_list (missileRelease (missileKey (missiles t ! k))) x"
    using assms(1)
    by (simp add: count_damagePlayer frame events_release_missile count_createExplosion)
  then show ?thesis
    using True assms(2) by (simp add: frame map_splice1)
next
  case False
  then show ?thesis by (simp add: hitMissile_def Let_def)
qed

lemma moveMissile_step:
  assumes "k < length (map missileKey (missiles t))"
  shows "(map missileKey (missiles (moveMissile k t)) = map missileKey (missiles t) \<and>
          count_list (events (moveMissile k t)) x = count_list (events t) x) \<or>
         (map missileKey (missiles (moveMissile k t)) = splice1 k (map missileKey (missiles t)) \<and>
          count_list (events (moveMissile k t)) x
            = count_list (events t) x
              + count_list (missileRelease (map missileKey (missiles t) ! k)) x)"
proof -
  define m2 where "m2 = (missiles t ! k)
     \<lparr>position := addV (position (missiles t ! k))
                    (multiplyScalar (direction (missiles t ! k)) (mspeed (missiles t ! k))),
      lifeTime := Suc (lifeTime (missiles t ! k))\<rparr>"
  define t1 where "t1 = t\<lparr>missiles := (missiles t)[k := m2]\<rparr>"
  have key: "missileKey m2 = missileKey (missiles t ! k)"
    by (simp add: m2_def missileKey_def)
  have k: "k < length (missiles t)" using assms by simp
  have keep: "map missileKey ((missiles t)[k := m2]) = map missileKey (missiles t)"
    using k key by (simp add: map_update_same)
  have mm: "moveMissile k t =
     (if distanceTo (position m2) (ufo_position t1) > GAME_BOUNDS * 1.5 \<or> lifeTime m2 > 500
      then removeMissileAt k m2 (releaseMissileEmitter m2 t1) else t1)"
    unfolding moveMissile_def Let_def m2_def t1_def by simp
  show ?thesis
  proof (cases "distanceTo (position m2) (ufo_position t1) > GAME_BOUNDS * 1.5 \<or> lifeTime m2 > 500")
    case True
    then have "moveMissile k t = removeMissileAt k m2 (releaseMissileEmitter m2 t1)"
      using mm by simp
    then have "missiles (moveMissile k t) = splice1 k (missiles t)"
      and "events (moveMissile k t) = events t @ missileRelease (missileKey (missiles t ! k))"
      by (simp_all add: frame events_release_missile key t1_def splice1_update)
    then show ?thesis using k by (simp add: map_splice1)
  next
    case False
    then have "moveMissile k t = t1" using mm by simp
    then show ?thesis using keep by (simp add: t1_def)
  qed
qed

lemma moveJet_step:
  assumes "isRelease x" and "k < length (map jetKey (jets t))"
  shows "(map jetKey (jets (moveJet now k t)) = map jetKey (jets t) \<and>
          count_list (events (moveJet now k t)) x = count_list (events t) x) \<or>
         (map jetKey (jets (moveJet now k t)) = splice1 k (map jetKey (jets t)) \<and>
          count_list (events (moveJet now k t)) x
            = count_list (events t) x + count_list (jetRelease (map jetKey (jets t) ! k)) x)"
proof -
  define jet1 where "jet1 = (jets t ! k)
     \<lparr>target := ufo_position t,
      position := addV (position (jets t ! k))
        (multiplyScalar (normalizeV (subVectors (ufo_position t) (position (jets t ! k))))
           (speed (jets t ! k)))\<rparr>"
  define fire where "fire = (now - lastFired jet1 > fireRate jet1)"
  define t1 where "t1 = (if fire then
       createMissileModel (position jet1) (subVectors (ufo_position t) (position jet1)) t
     else t)"
  define jet2 where "jet2 = (if fire then jet1\<lparr>lastFired := now\<rparr> else jet1)"
  define t2 where "t2 = t1\<lparr>jets := (jets t1)[k := jet2]\<rparr>"
  have mj: "moveJet now k t =
     (if distanceTo (position jet2) (ufo_position t2) > GAME_BOUNDS * 1.5
      then removeJetAt k jet2 (releaseJetEmitter jet2 (stopEngineSound jet2 t2)) else t2)"
    unfolding moveJet_def Let_def jet1_def fire_def t1_def jet2_def t2_def by (rule refl)
  have key: "jetKey jet2 = jetKey (jets t ! k)"
    by (simp add: jet2_def jet1_def jetKey_def)
  have k: "k < length (jets t)" using assms by simp
  have j1: "jets t1 = jets t" by (simp add: t1_def frame)
  have c1: "count_list (events t1) x = count_list (events t) x"
    using assms(1) by (simp add: t1_def count_createMissileModel)
  have j2: "jets t2 = (jets t)[k := jet2]" by (simp add: t2_def j1)
  have e2: "events t2 = events t1" by (simp add: t2_def)
  show ?thesis
  proof (cases "distanceTo (position jet2) (ufo_position t2) > GAME_BOUNDS * 1.5")
    case True
    then have "moveJet now k t = removeJetAt k jet2 (releaseJetEmitter jet2 (stopEngineSound jet2 t2))"
      using mj by simp
    then have "jets (moveJet now k t) = splice1 k (jets t)"
      and "events (moveJet now k t) = events t1 @ jetRelease (jetKey (jets t ! k))"
      by (simp_all add: frame events_release_jet key j2 e2 splice1_update)
    then show ?thesis using k c1 by (simp add: map_splice1)
  next
    case False
    then have "moveJet now k t = t2" using mj by simp
    then show ?thesis using k key c1 by (simp add: j2 e2 map_update_same)
  qed
qed

lemma sum_single:
  fixes w :: "'k \<Rightarrow> nat"
  assumes "finite A" and "\<And>\<kappa>. \<kappa> \<in> A \<Longrightarrow> w \<kappa> = (if \<kappa> = \<kappa>0 then 1 else 0)"
  shows "sum w A = (if \<kappa>0 \<in> A then 1 else 0)"
proof -
  have "sum w A = sum (\<lambda>\<kappa>. if \<kappa> = \<kappa>0 then 1 else 0) A"
    using assms(2) by (rule sum.cong [OF refl])
  then show ?thesis using assms(1) by simp
qed

lemma jets_pass:
  assumes "isRelease x" and "distinct (map jetKey (jets s))"
    and "cb = hitJet \<or> cb = moveJet now"
  shows "set (map jetKey (jets (forEach (\<lambda>t. length (jets t)) cb s))) \<subseteq> set (map jetKey (jets s)) \<and>
         distinct (map jetKey (jets (forEach (\<lambda>t. length (jets t)) cb s))) \<and>
         count_list (events (forEach (\<lambda>t. length (jets t)) cb s)) x
           = count_list (events s) x
             + sum (\<lambda>\<kappa>. count_list (jetRelease \<kappa>) x)
                 (set (map jetKey (jets s))
                    - set (map jetKey (jets (forEach (\<lambda>t. length (jets t)) cb s))))"
  unfolding forEach_def
proof (rule pass_counts [where keyl = "\<lambda>t. map jetKey (jets t)"
      and cnt = "\<lambda>t. count_list (events t) x" and w = "\<lambda>\<kappa>. count_list (jetRelease \<kappa>) x"])
  show "\<And>t. length (jets t) = length (map jetKey (jets t))" by simp
  show "distinct (map jetKey (jets s))" by (rule assms(2))
  fix k and t :: game
  assume k: "k < length (map jetKey (jets t))"
  show "(map jetKey (jets (cb k t)) = map jetKey (jets t) \<and>
         count_list (events (cb k t)) x = count_list (events t) x) \<or>
        (map jetKey (jets (cb k t)) = splice1 k (map jetKey (jets t)) \<and>
         count_list (events (cb k t)) x
           = count_list (events t) x + count_list (jetRelease (map jetKey (jets t) ! k)) x)"
    using assms(3) hitJet_step [OF assms(1) k] moveJet_step [OF assms(1) k, of now] by blast
qed

lemma missiles_pass:
  assumes "isRelease x" and "distinct (map missileKey (missiles s))"
    and "cb = hitMissile \<or> cb = moveMissile"
  shows "set (map missileKey (missiles (forEach (\<lambda>t. length (missiles t)) cb s)))
           \<subseteq> set (map missileKey (missiles s)) \<and>
         distinct (map missileKey (missiles (forEach (\<lambda>t. length (missiles t)) cb s))) \<and>
         count_list (events (forEach (\<lambda>t. length (missiles t)) cb s)) x
           = count_list (events s) x
             + sum (\<lambda>\<kappa>. count_list (missileRelease \<kappa>) x)
                 (set (map missileKey (missiles s))
                    - set (map missileKey (missiles (forEach (\<lambda>t. length (missiles t)) cb s))))"
  unfolding forEach_def
proof (rule pass_counts [where keyl = "\<lambda>t. map missileKey (missiles t)"
      and cnt = "\<lambda>t. count_list (events t) x" and w = "\<lambda>\<kappa>. count_list (missileRelease \<kappa>) x"])
  show "\<And>t. length (missiles t) = length (map missileKey (missiles t))" by simp
  show "distinct (map missileKey (missiles s))" by (rule assms(2))
  fix k and t :: game
  assume k: "k < length (map missileKey (missiles t))"
  show "(map missileKey (missiles (cb k t)) = map missileKey (missiles t) \<and>
         count_list (events (cb k t)) x = count_list (events t) x) \<or>
        (map missileKey (missiles (cb k t)) = splice1 k (map missileKey (missiles t)) \<and>
         count_list (events (cb k t)) x
           = count_list (events t) x
             + count_list (missileRelease (map missileKey (missiles t) ! k)) x)"
    using assms(3) hitMissile_step [OF assms(1) k] moveMissile_step [OF k, of x] by blast
qed

text \<open>Keys and identities: with distinct identities, a key is gone iff its identity is.\<close>

lemma key_gone:
  assumes inj: "inj_on f (set xs)" and fk: "\<And>a b. key a = key b \<Longrightarrow> f a = f b"
    and sub: "set (map key ys) \<subseteq> set (map key xs)" and j: "j \<in> set xs"
  shows "key j \<in> set (map key ys) \<longleftrightarrow> f j \<in> set (map f ys)"
proof
  assume "key j \<in> set (map key ys)"
  then obtain b where "b \<in> set ys" "key b = key j" by auto
  then have "b \<in> set ys" "f b = f j" using fk [of b j] by simp_all
  then show "f j \<in> set (map f ys)" by (metis image_eqI set_map)
next
  assume "f j \<in> set (map f ys)"
  then obtain b where b: "b \<in> set ys" "f b = f j" by auto
  then have "key b \<in> set (map key xs)" using sub by auto
  then obtain a where a: "a \<in> set xs" "key a = key b" by auto
  then have "f a = f j" using fk [of a b] b by simp
  then have "a = j" using inj a(1) j by (simp add: inj_on_def)
  then have "b \<in> set ys" "key b = key j" using a b by simp_all
  then show "key j \<in> set (map key ys)" by (metis image_eqI set_map)
qed

lemma keyed_sum:
  fixes w :: "'k \<Rightarrow> nat"
  assumes inj: "inj_on g (set xs)" and j: "j \<in> set xs"
    and w0: "\<And>a. a \<in> set xs \<Longrightarrow> g a \<noteq> g j \<Longrightarrow> w (key a) = 0"
    and w1: "w (key j) = 1"
  shows "sum w (set (map key xs) - B) = (if key j \<in> B then 0 else 1)"
proof -
  have "\<And>\<kappa>. \<kappa> \<in> set (map key xs) - B \<Longrightarrow> w \<kappa> = (if \<kappa> = key j then 1 else 0)"
  proof -
    fix \<kappa> assume "\<kappa> \<in> set (map key xs) - B"
    then obtain a where a: "a \<in> set xs" "\<kappa> = key a" by auto
    show "w \<kappa> = (if \<kappa> = key j then 1 else 0)"
    proof (cases "g a = g j")
      case True
      then have "a = j" using inj a(1) j by (simp add: inj_on_def)
      then show ?thesis using w1 a(2) by simp
    next
      case False
      then have z: "w \<kappa> = 0" using w0 [OF a(1)] a(2) by simp
      then have "\<kappa> \<noteq> key j" using w1 by auto
      then show ?thesis using z by simp
    qed
  qed
  then have "sum w (set (map key xs) - B) = (if key j \<in> set (map key xs) - B then 1 else 0)"
    by (intro sum_single) simp_all
  then show ?thesis using j by auto
qed

lemma zero_sum:
  fixes w :: "'k \<Rightarrow> nat"
  assumes "\<And>a. a \<in> set xs \<Longrightarrow> w (key a) = 0"
  shows "sum w (set (map key xs) - B) = 0"
  using assms by auto

lemma count_stop_key:
  "count_list (jetRelease (jetKey a)) (EngineSoundStop i) =
     (case engineSound a of None \<Rightarrow> 0
      | Some es \<Rightarrow> if isPlaying es \<and> oid a = i then 1 else 0)"
  by (simp add: jetRelease_def jetKey_def split: option.splits)

lemma count_remove_key:
  "count_list (jetRelease (jetKey a)) (RemoveEmitter e) =
     (if exhaustEmitter a = Some e then 1 else 0)"
  by (simp add: jetRelease_def jetKey_def split: option.splits)

lemma count_missile_key:
  "count_list (missileRelease (missileKey a)) (RemoveEmitter e) =
     (if mexhaustEmitter a = Some e then 1 else 0)"
  "count_list (missileRelease (missileKey a)) (EngineSoundStop i) = 0"
  by (simp_all add: missileRelease_def missileKey_def split: option.splits)

lemma distinct_keys:
  assumes "distinct (map f xs)" and "\<And>a b. key a = key b \<Longrightarrow> f a = f b"
  shows "distinct (map key xs)"
proof -
  have d: "distinct xs" and i: "inj_on f (set xs)"
    using assms(1) by (simp_all add: distinct_map)
  have "inj_on key (set xs)"
    using i assms(2) unfolding inj_on_def by blast
  then show ?thesis using d by (simp add: distinct_map)
qed

lemma jetKey_oid: "jetKey a = jetKey b \<Longrightarrow> oid a = oid b"
  by (simp add: jetKey_def)

lemma missileKey_oid: "missileKey a = missileKey b \<Longrightarrow> oid a = oid b"
  by (simp add: missileKey_def)

lemma jets_pass_calls:
  assumes cb: "cb = hitJet \<or> cb = moveJet now"
    and d1: "distinct (map oid (jets s))" and d2: "distinct (map exhaustEmitter (jets s))"
    and j: "j \<in> set (jets s)"
    and playing: "case engineSound j of None \<Rightarrow> False | Some es \<Rightarrow> isPlaying es"
    and em: "exhaustEmitter j = Some e"
  shows "count_list (events (forEach (\<lambda>t. length (jets t)) cb s)) (EngineSoundStop (oid j))
           = count_list (events s) (EngineSoundStop (oid j))
             + (if oid j \<in> set (map oid (jets (forEach (\<lambda>t. length (jets t)) cb s)))
                then 0 else 1) \<and>
         count_list (events (forEach (\<lambda>t. length (jets t)) cb s)) (RemoveEmitter e)
           = count_list (events s) (RemoveEmitter e)
             + (if oid j \<in> set (map oid (jets (forEach (\<lambda>t. length (jets t)) cb s)))
                then 0 else 1)"
proof -
  define s' where "s' = forEach (\<lambda>t. length (jets t)) cb s"
  have dk: "distinct (map jetKey (jets s))"
    using d1 jetKey_oid by (rule distinct_keys)
  have i1: "inj_on oid (set (jets s))" and i2: "inj_on exhaustEmitter (set (jets s))"
    using d1 d2 by (simp_all add: distinct_map)
  have p1: "set (map jetKey (jets s')) \<subseteq> set (map jetKey (jets s))"
    and c1: "count_list (events s') (EngineSoundStop (oid j))
       = count_list (events s) (EngineSoundStop (oid j))
         + sum (\<lambda>\<kappa>. count_list (jetRelease \<kappa>) (EngineSoundStop (oid j)))
             (set (map jetKey (jets s)) - set (map jetKey (jets s')))"
    using jets_pass [of "EngineSoundStop (oid j)" s cb now] dk cb
    by (simp_all add: s'_def isRelease_def)
  have c2: "count_list (events s') (RemoveEmitter e)
       = count_list (events s) (RemoveEmitter e)
         + sum (\<lambda>\<kappa>. count_list (jetRelease \<kappa>) (RemoveEmitter e))
             (set (map jetKey (jets s)) - set (map jetKey (jets s')))"
    using jets_pass [of "RemoveEmitter e" s cb now] dk cb
    by (simp_all add: s'_def isRelease_def)
  have g: "jetKey j \<in> set (map jetKey (jets s')) \<longleftrightarrow> oid j \<in> set (map oid (jets s'))"
    using i1 jetKey_oid p1 j by (rule key_gone)
  have s1: "sum (\<lambda>\<kappa>. count_list (jetRelease \<kappa>) (EngineSoundStop (oid j)))
              (set (map jetKey (jets s)) - set (map jetKey (jets s')))
            = (if jetKey j \<in> set (map jetKey (jets s')) then 0 else 1)"
  proof (rule keyed_sum [OF i1 j])
    fix a assume "a \<in> set (jets s)" "oid a \<noteq> oid j"
    then show "count_list (jetRelease (jetKey a)) (EngineSoundStop (oid j)) = 0"
      by (simp add: count_stop_key split: option.splits)
  next
    show "count_list (jetRelease (jetKey j)) (EngineSoundStop (oid j)) = 1"
      using playing by (cases "engineSound j") (simp_all add: count_stop_key)
  qed
  have s2: "sum (\<lambda>\<kappa>. count_list (jetRelease \<kappa>) (RemoveEmitter e))
              (set (map jetKey (jets s)) - set (map jetKey (jets s')))
            = (if jetKey j \<in> set (map jetKey (jets s')) then 0 else 1)"
  proof (rule keyed_sum [OF i2 j])
    fix a assume "a \<in> set (jets s)" "exhaustEmitter a \<noteq> exhaustEmitter j"
    then show "count_list (jetRelease (jetKey a)) (RemoveEmitter e) = 0"
      using em by (simp add: count_remove_key)
  next
    show "count_list (jetRelease (jetKey j)) (RemoveEmitter e) = 1"
      using em by (simp add: count_remove_key)
  qed
  have "count_list (events s') (EngineSoundStop (oid j))
           = count_list (events s) (EngineSoundStop (oid j))
             + (if oid j \<in> set (map oid (jets s')) then 0 else 1) \<and>
        count_list (events s') (RemoveEmitter e)
           = count_list (events s) (RemoveEmitter e)
             + (if oid j \<in> set (map oid (jets s')) then 0 else 1)"
    using c1 c2 s1 s2 g by simp
  then show ?thesis by (simp add: s'_def)
qed

lemma missiles_pass_calls:
  assumes cb: "cb = hitMissile \<or> cb = moveMissile"
    and d1: "distinct (map oid (missiles s))"
    and d2: "distinct (map mexhaustEmitter (missiles s))"
    and m: "m \<in> set (missiles s)"
    and em: "mexhaustEmitter m = Some e"
  shows "count_list (events (forEach (\<lambda>t. length (missiles t)) cb s)) (RemoveEmitter e)
           = count_list (events s) (RemoveEmitter e)
             + (if oid m \<in> set (map oid (missiles (forEach (\<lambda>t. length (missiles t)) cb s)))
                then 0 else 1)"
proof -
  define s' where "s' = forEach (\<lambda>t. length (missiles t)) cb s"
  have dk: "distinct (map missileKey (missiles s))"
    using d1 missileKey_oid by (rule distinct_keys)
  have i1: "inj_on oid (set (missiles s))" and i2: "inj_on mexhaustEmitter (set (missiles s))"
    using d1 d2 by (simp_all add: distinct_map)
  have p1: "set (map missileKey (missiles s')) \<subseteq> set (map missileKey (missiles s))"
    and c2: "count_list (events s') (RemoveEmitter e)
       = count_list (events s) (RemoveEmitter e)
         + sum (\<lambda>\<kappa>. count_list (missileRelease \<kappa>) (RemoveEmitter e))
             (set (map missileKey (missiles s)) - set (map missileKey (missiles s')))"
    using missiles_pass [of "RemoveEmitter e" s cb] dk cb
    by (simp_all add: s'_def isRelease_def)
  have g: "missileKey m \<in> set (map missileKey (missiles s'))
             \<longleftrightarrow> oid m \<in> set (map oid (missiles s'))"
    using i1 missileKey_oid p1 m by (rule key_gone)
  have s2: "sum (\<lambda>\<kappa>. count_list (missileRelease \<kappa>) (RemoveEmitter e))
              (set (map missileKey (missiles s)) - set (map missileKey (missiles s')))
            = (if missileKey m \<in> set (map missileKey (missiles s')) then 0 else 1)"
  proof (rule keyed_sum [OF i2 m])
    fix a assume "a \<in> set (missiles s)" "mexhaustEmitter a \<noteq> mexhaustEmitter m"
    then show "count_list (missileRelease (missileKey a)) (RemoveEmitter e) = 0"
      using em by (simp add: count_missile_key)
  next
    show "count_list (missileRelease (missileKey m)) (RemoveEmitter e) = 1"
      using em by (simp add: count_missile_key)
  qed
  have "count_list (events s') (RemoveEmitter e)
           = count_list (events s) (RemoveEmitter e)
             + (if oid m \<in> set (map oid (missiles s')) then 0 else 1)"
    using c2 s2 g by simp
  then show ?thesis by (simp add: s'_def)
qed

text \<open>What a pass leaves alone: the release calls of handles that no entity of it owns.\<close>

lemma jets_pass_other:
  assumes cb: "cb = hitJet \<or> cb = moveJet now"
    and d1: "distinct (map oid (jets s))"
    and no: "\<And>a. a \<in> set (jets s) \<Longrightarrow> exhaustEmitter a \<noteq> Some e"
  shows "count_list (events (forEach (\<lambda>t. length (jets t)) cb s)) (RemoveEmitter e)
           = count_list (events s) (RemoveEmitter e)"
proof -
  have dk: "distinct (map jetKey (jets s))"
    using d1 jetKey_oid by (rule distinct_keys)
  have "sum (\<lambda>\<kappa>. count_list (jetRelease \<kappa>) (RemoveEmitter e))
          (set (map jetKey (jets s))
             - set (map jetKey (jets (forEach (\<lambda>t. length (jets t)) cb s)))) = 0"
    by (rule zero_sum) (simp add: count_remove_key no)
  then show ?thesis
    using jets_pass [of "RemoveEmitter e" s cb now] dk cb by (simp add: isRelease_def)
qed

lemma missiles_pass_other:
  assumes cb: "cb = hitMissile \<or> cb = moveMissile"
    and d1: "distinct (map oid (missiles s))"
  shows "count_list (events (forEach (\<lambda>t. length (missiles t)) cb s)) (EngineSoundStop i)
           = count_list (events s) (EngineSoundStop i)"
    and "(\<And>a. a \<in> set (missiles s) \<Longrightarrow> mexhaustEmitter a \<noteq> Some e) \<Longrightarrow>
         count_list (events (forEach (\<lambda>t. length (missiles t)) cb s)) (RemoveEmitter e)
           = count_list (events s) (RemoveEmitter e)"
proof -
  have dk: "distinct (map missileKey (missiles s))"
    using d1 missileKey_oid by (rule distinct_keys)
  have "sum (\<lambda>\<kappa>. count_list (missileRelease \<kappa>) (EngineSoundStop i))
          (set (map missileKey (missiles s))
             - set (map missileKey (missiles (forEach (\<lambda>t. length (missiles t)) cb s)))) = 0"
    by (rule zero_sum) (simp add: count_missile_key)
  then show "count_list (events (forEach (\<lambda>t. length (missiles t)) cb s)) (EngineSoundStop i)
           = count_list (events s) (EngineSoundStop i)"
    using missiles_pass [of "EngineSoundStop i" s cb] dk cb by (simp add: isRelease_def)
  assume no: "\<And>a. a \<in> set (missiles s) \<Longrightarrow> mexhaustEmitter a \<noteq> Some e"
  have "sum (\<lambda>\<kappa>. count_list (missileRelease \<kappa>) (RemoveEmitter e))
          (set (map missileKey (missiles s))
             - set (map missileKey (missiles (forEach (\<lambda>t. length (missiles t)) cb s)))) = 0"
    by (rule zero_sum) (simp add: count_missile_key no)
  then show "count_list (events (forEach (\<lambda>t. length (missiles t)) cb s)) (RemoveEmitter e)
           = count_list (events s) (RemoveEmitter e)"
    using missiles_pass [of "RemoveEmitter e" s cb] dk cb by (simp add: isRelease_def)
qed

lemma jets_spawnJet:
  "\<exists>jn. jets (spawnJet s) = jets s @ [jn] \<and> oid jn = nextId s \<and>
        engineSound jn = Some \<lparr>isPlaying = True\<rparr> \<and> exhaustEmitter jn = Some (Suc (nextId s))"
  by (simp add: spawnJet_def createEngineExhaust_def createEmitter_def Let_def advance_def)

subsection \<open>The emitter list under the operations of a frame\<close>

lemma extends_refl: "extends t t"
  by (simp add: extends_def list_all_iff)

lemma extendsD:
  assumes "extends t t'"
  shows "nextId t \<le> nextId t'" "registered t \<Longrightarrow> registered t'"
    and "\<And>i. i \<in> set (map eid (particleSystems t')) \<Longrightarrow>
           i \<in> set (map eid (particleSystems t)) \<or> nextId t \<le> i"
proof -
  show "nextId t \<le> nextId t'" "registered t \<Longrightarrow> registered t'"
    using assms by (simp_all add: extends_def)
  fix i assume "i \<in> set (map eid (particleSystems t'))"
  then obtain p where p: "p \<in> set (particleSystems t')" "eid p = i" by auto
  have "\<forall>p \<in> set (particleSystems t').
          eid p \<in> set (map eid (particleSystems t)) \<or> nextId t \<le> eid p"
    using assms by (simp add: extends_def list_all_iff)
  then show "i \<in> set (map eid (particleSystems t)) \<or> nextId t \<le> i"
    using p by blast
qed

lemma extendsI:
  assumes "nextId t \<le> nextId t'" and "registered t \<Longrightarrow> registered t'"
    and "\<And>i. i \<in> set (map eid (particleSystems t')) \<Longrightarrow>
           i \<in> set (map eid (particleSystems t)) \<or> nextId t \<le> i"
  shows "extends t t'"
proof -
  have "\<forall>p \<in> set (particleSystems t').
          eid p \<in> set (map eid (particleSystems t)) \<or> nextId t \<le> eid p"
  proof
    fix p assume "p \<in> set (particleSystems t')"
    then have "eid p \<in> set (map eid (particleSystems t'))" by simp
    then show "eid p \<in> set (map eid (particleSystems t)) \<or> nextId t \<le> eid p"
      by (rule assms(3))
  qed
  then show ?thesis
    using assms(1,2) by (simp add: extends_def list_all_iff)
qed

lemma extends_trans:
  assumes a: "extends t t'" and b: "extends t' t''"
  shows "extends t t''"
proof (rule extendsI)
  show "nextId t \<le> nextId t''"
    using extendsD(1) [OF a] extendsD(1) [OF b] by simp
  show "registered t \<Longrightarrow> registered t''"
    using extendsD(2) [OF a] extendsD(2) [OF b] by blast
  fix i assume "i \<in> set (map eid (particleSystems t''))"
  then have "i \<in> set (map eid (particleSystems t')) \<or> nextId t' \<le> i"
    by (rule extendsD(3) [OF b])
  then show "i \<in> set (map eid (particleSystems t)) \<or> nextId t \<le> i"
    using extendsD(3) [OF a, of i] extendsD(1) [OF a] by auto
qed

lemma extends_same:
  "particleSystems t' = particleSystems t \<Longrightarrow> nextId t' = nextId t \<Longrightarrow> extends t t'"
  by (simp add: extends_def registered_def list_all_iff)

lemma extends_createEmitter: "extends t (snd (createEmitter ty p d opts t))"
proof -
  obtain e0 where ps: "particleSystems (snd (createEmitter ty p d opts t)) = particleSystems t @ [e0]"
    and e0: "eid e0 = nextId t"
    and n: "nextId (snd (createEmitter ty p d opts t)) = Suc (nextId t)"
    by (simp add: snd_createEmitter)
  show ?thesis
  proof (rule extendsI)
    show "nextId t \<le> nextId (snd (createEmitter ty p d opts t))" by (simp add: n)
    show "registered (snd (createEmitter ty p d opts t))" if "registered t"
      using that unfolding registered_def list_all_iff ps n
      by (auto simp add: e0 less_Suc_eq)
    fix i assume "i \<in> set (map eid (particleSystems (snd (createEmitter ty p d opts t))))"
    then show "i \<in> set (map eid (particleSystems t)) \<or> nextId t \<le> i"
      unfolding ps by (auto simp add: e0)
  qed
qed

lemma removeEmitter_list:
  "set (particleSystems (removeEmitter r t)) \<subseteq> set (particleSystems t)"
  "nextId (removeEmitter r t) = nextId t"
  "distinct (map eid (particleSystems t)) \<Longrightarrow>
   distinct (map eid (particleSystems (removeEmitter r t)))"
proof -
  show "nextId (removeEmitter r t) = nextId t"
    by (simp add: removeEmitter_def split: option.splits)
  consider "particleSystems (removeEmitter r t) = particleSystems t"
    | k where "particleSystems (removeEmitter r t) = splice1 k (particleSystems t)"
    by (cases r; cases "indexOf (the r) (particleSystems t)") (simp_all add: removeEmitter_def)
  note c = this
  show "set (particleSystems (removeEmitter r t)) \<subseteq> set (particleSystems t)"
  proof (cases rule: c)
    case 1
    then show ?thesis by simp
  next
    case (2 k)
    then show ?thesis using set_splice1_subset [of k "particleSystems t"] by simp
  qed
  show "distinct (map eid (particleSystems (removeEmitter r t)))"
    if "distinct (map eid (particleSystems t))"
  proof (cases rule: c)
    case 1
    then show ?thesis using that by simp
  next
    case (2 k)
    then show ?thesis
      using that distinct_splice1 [of "map eid (particleSystems t)" k] by (simp add: map_splice1)
  qed
qed

lemma extends_removeEmitter: "extends t (removeEmitter r t)"
proof (rule extendsI)
  show "nextId t \<le> nextId (removeEmitter r t)" by (simp add: removeEmitter_list)
  show "registered (removeEmitter r t)" if "registered t"
    using that removeEmitter_list [where r = r and t = t] unfolding registered_def list_all_iff by auto
  fix i assume "i \<in> set (map eid (particleSystems (removeEmitter r t)))"
  then show "i \<in> set (map eid (particleSystems t)) \<or> nextId t \<le> i"
    using removeEmitter_list(1) [where r = r and t = t] by auto
qed

lemma gone_extends:
  assumes "extends t t'" and "e \<notin> set (map eid (particleSystems t))" and "e < nextId t"
  shows "e \<notin> set (map eid (particleSystems t')) \<and> e < nextId t'"
  using extendsD(1) [OF assms(1)] extendsD(3) [OF assms(1), of e] assms(2,3) by auto

lemma removeEmitter_gone:
  assumes "distinct (map eid (particleSystems s))"
  shows "e \<notin> set (map eid (particleSystems (removeEmitter (Some e) s)))"
proof (cases "e \<in> eid ` set (particleSystems s)")
  case True
  then show ?thesis using removeEmitter_releases [OF assms True] by simp
next
  case False
  have "set (particleSystems (removeEmitter (Some e) s)) \<subseteq> set (particleSystems s)"
    by (rule removeEmitter_list)
  then show ?thesis using False by auto
qed

lemma extends_emit: "extends t t' \<Longrightarrow> extends t (emit e t')"
  by (erule extends_trans) (rule extends_same, simp_all add: emit_def)

lemma extends_createEmitter_after:
  "extends t t' \<Longrightarrow> extends t (snd (createEmitter ty p d opts t'))"
  by (erule extends_trans) (rule extends_createEmitter)

lemma extends_removeEmitter_after: "extends t t' \<Longrightarrow> extends t (removeEmitter r t')"
  by (erule extends_trans) (rule extends_removeEmitter)

lemma extends_createExplosion: "extends t t' \<Longrightarrow> extends t (createExplosion p n t')"
  unfolding createExplosion_def ps_createExplosion_def
  by (intro extends_emit extends_createEmitter_after)

lemma extends_endGame: "extends t t' \<Longrightarrow> extends t (endGame t')"
  by (erule extends_trans)
    (rule extends_same, simp_all add: endGame_def changeState_def saveHighScore_def emit_def)

lemma extends_updateHealth: "extends t t' \<Longrightarrow> extends t (updateHealth n t')"
  by (erule extends_trans)
    (rule extends_same,
     simp_all add: updateHealth_def Let_def endGame_def changeState_def saveHighScore_def emit_def)

lemma extends_damagePlayer: "extends t t' \<Longrightarrow> extends t (damagePlayer t')"
proof -
  assume a: "extends t t'"
  define t3 where "t3 = emit (Play ''ufo'' ''explosion'') (emit (ShakeScreen 0.5)
                          (updateHealth (health t' - 1) t'))"
  have d: "damagePlayer t' =
     (if health t3 \<le> 0 then endGame (createExplosion (ufo_position t3) 5 t3) else t3)"
    unfolding damagePlayer_def Let_def t3_def by (rule refl)
  have e3: "extends t t3"
    unfolding t3_def using a by (intro extends_emit extends_updateHealth)
  then have "extends t (endGame (createExplosion (ufo_position t3) 5 t3))"
    by (intro extends_endGame extends_createExplosion)
  then show ?thesis
    using e3 d by (cases "health t3 \<le> 0") simp_all
qed

lemma extends_stopEngineSound: "extends t t' \<Longrightarrow> extends t (stopEngineSound j t')"
  by (erule extends_trans)
    (rule extends_same, simp_all add: stopEngineSound_def emit_def split: option.splits)

lemma extends_releaseJetEmitter: "extends t t' \<Longrightarrow> extends t (releaseJetEmitter j t')"
  unfolding releaseJetEmitter_def
  by (cases "exhaustEmitter j") (simp_all add: extends_emit extends_removeEmitter_after)

lemma extends_releaseMissileEmitter:
  "extends t t' \<Longrightarrow> extends t (releaseMissileEmitter m t')"
  unfolding releaseMissileEmitter_def
  by (cases "mexhaustEmitter m") (simp_all add: extends_emit extends_removeEmitter_after)

lemma extends_removeJetAt: "extends t t' \<Longrightarrow> extends t (removeJetAt k j t')"
  by (erule extends_trans) (rule extends_same, simp_all add: removeJetAt_def)

lemma extends_removeMissileAt: "extends t t' \<Longrightarrow> extends t (removeMissileAt k m t')"
  by (erule extends_trans) (rule extends_same, simp_all add: removeMissileAt_def)

lemma extends_append:
  assumes ps: "particleSystems t' = particleSystems t @ [e0]"
    and lo: "nextId t \<le> eid e0" and hi: "eid e0 < nextId t'"
  shows "extends t t'"
proof (rule extendsI)
  show "nextId t \<le> nextId t'" using lo hi by simp
  show "registered t'" if "registered t"
  proof -
    have lt: "\<forall>p \<in> set (particleSystems t). eid p < nextId t"
      and d: "distinct (map eid (particleSystems t))"
      using that by (simp_all add: registered_def list_all_iff)
    have "eid e0 \<notin> set (map eid (particleSystems t))"
      using lt lo by fastforce
    moreover have "\<forall>p \<in> set (particleSystems t). eid p < nextId t'"
      using lt lo hi by fastforce
    ultimately show ?thesis
      using d hi by (simp add: registered_def list_all_iff ps)
  qed
  fix i assume "i \<in> set (map eid (particleSystems t'))"
  then show "i \<in> set (map eid (particleSystems t)) \<or> nextId t \<le> i"
    using lo by (auto simp add: ps)
qed

lemma particleSystems_createMissileModel:
  "\<exists>e0. particleSystems (createMissileModel p d t) = particleSystems t @ [e0] \<and>
        eid e0 = Suc (nextId t)"
  by (simp add: createMissileModel_def createEmitter_def Let_def emit_def)

lemma extends_createMissileModel: "extends t t' \<Longrightarrow> extends t (createMissileModel p d t')"
proof (erule extends_trans)
  obtain e0 where "particleSystems (createMissileModel p d t') = particleSystems t' @ [e0]"
    and "eid e0 = Suc (nextId t')"
    using particleSystems_createMissileModel [of p d t'] by blast
  then show "extends t' (createMissileModel p d t')"
    by (intro extends_append [where ?e0.0 = e0]) (simp_all add: frame)
qed

lemma particleSystems_spawnJet:
  "\<exists>e0. particleSystems (spawnJet s) = particleSystems s @ [e0] \<and> eid e0 = Suc (nextId s) \<and>
        nextId (spawnJet s) = Suc (Suc (nextId s))"
  by (simp add: spawnJet_def createEngineExhaust_def createEmitter_def Let_def advance_def)

lemma extends_spawnJet: "extends s (spawnJet s)"
proof -
  obtain e0 where "particleSystems (spawnJet s) = particleSystems s @ [e0]"
    and "eid e0 = Suc (nextId s)" and "nextId (spawnJet s) = Suc (Suc (nextId s))"
    using particleSystems_spawnJet [of s] by blast
  then show ?thesis
    by (intro extends_append [where ?e0.0 = e0]) simp_all
qed

subsection \<open>The release sequences take the emitter out of the list\<close>

lemma release_jet_gone:
  assumes "registered t" and "exhaustEmitter j = Some e"
  shows "e \<notin> set (map eid (particleSystems (releaseJetEmitter j (stopEngineSound j t))))"
proof -
  have "particleSystems (emit (RemoveEmitter e) (stopEngineSound j t)) = particleSystems t"
    by (simp add: frame)
  then have "distinct (map eid (particleSystems (emit (RemoveEmitter e) (stopEngineSound j t))))"
    using assms(1) by (simp add: registered_def)
  then have "e \<notin> set (map eid (particleSystems
      (removeEmitter (Some e) (emit (RemoveEmitter e) (stopEngineSound j t)))))"
    by (rule removeEmitter_gone)
  then show ?thesis
    using assms(2) by (simp add: releaseJetEmitter_def)
qed

lemma release_missile_gone:
  assumes "registered t" and "mexhaustEmitter m = Some e"
  shows "e \<notin> set (map eid (particleSystems (releaseMissileEmitter m t)))"
proof -
  have "particleSystems (emit (RemoveEmitter e) t) = particleSystems t"
    by (simp add: frame)
  then have "distinct (map eid (particleSystems (emit (RemoveEmitter e) t)))"
    using assms(1) by (simp add: registered_def)
  then have "e \<notin> set (map eid (particleSystems (removeEmitter (Some e) (emit (RemoveEmitter e) t))))"
    by (rule removeEmitter_gone)
  then show ?thesis
    using assms(2) by (simp add: releaseMissileEmitter_def)
qed

lemma hitJet_gone:
  assumes reg: "registered t" and k: "k < length (map jetKey (jets t))"
    and bound: "\<And>e. snd (snd (map jetKey (jets t) ! k)) = Some e \<Longrightarrow> e < nextId t"
  shows "extends t (hitJet k t) \<and>
         (map jetKey (jets (hitJet k t)) = map jetKey (jets t) \<or>
          map jetKey (jets (hitJet k t)) = splice1 k (map jetKey (jets t)) \<and>
          (\<forall>e. snd (snd (map jetKey (jets t) ! k)) = Some e
                \<longrightarrow> e \<notin> set (map eid (particleSystems (hitJet k t)))))"
proof (cases "distanceTo (position (jets t ! k)) (ufo_position t) < ufo_radius t + radius (jets t ! k)")
  case True
  define t1 where "t1 = createExplosion (position (jets t ! k)) 3 t"
  define t3 where "t3 = releaseJetEmitter (jets t ! k) (stopEngineSound (jets t ! k) t1)"
  have h: "hitJet k t = damagePlayer (removeJetAt k (jets t ! k) t3)"
    using True by (simp add: hitJet_def Let_def t1_def t3_def)
  have e1: "extends t t1"
    unfolding t1_def by (intro extends_createExplosion extends_refl)
  then have e3: "extends t t3"
    unfolding t3_def by (intro extends_releaseJetEmitter extends_stopEngineSound)
  have e5: "extends t3 (hitJet k t)"
    unfolding h by (intro extends_damagePlayer extends_removeJetAt extends_refl)
  have r1: "registered t1" using extendsD(2) [OF e1 reg] .
  have gone: "e \<notin> set (map eid (particleSystems (hitJet k t)))"
    if e: "snd (snd (map jetKey (jets t) ! k)) = Some e" for e
  proof -
    have em: "exhaustEmitter (jets t ! k) = Some e"
      using e k by (simp add: jetKey_def)
    have "e \<notin> set (map eid (particleSystems t3))"
      unfolding t3_def using r1 em by (rule release_jet_gone)
    moreover have "e < nextId t3"
      using bound [OF e] extendsD(1) [OF e3] by simp
    ultimately show ?thesis
      using gone_extends [OF e5] by blast
  qed
  have "map jetKey (jets (hitJet k t)) = splice1 k (map jetKey (jets t))"
    using True by (simp add: frame map_splice1)
  then show ?thesis
    using extends_trans [OF e3 e5] gone by blast
next
  case False
  then have "hitJet k t = t" by (simp add: hitJet_def Let_def)
  then show ?thesis by (simp add: extends_refl)
qed

lemma hitMissile_gone:
  assumes reg: "registered t" and k: "k < length (map missileKey (missiles t))"
    and bound: "\<And>e. snd (map missileKey (missiles t) ! k) = Some e \<Longrightarrow> e < nextId t"
  shows "extends t (hitMissile k t) \<and>
         (map missileKey (missiles (hitMissile k t)) = map missileKey (missiles t) \<or>
          map missileKey (missiles (hitMissile k t)) = splice1 k (map missileKey (missiles t)) \<and>
          (\<forall>e. snd (map missileKey (missiles t) ! k) = Some e
                \<longrightarrow> e \<notin> set (map eid (particleSystems (hitMissile k t)))))"
proof (cases "distanceTo (position (missiles t ! k)) (ufo_position t)
                < ufo_radius t + radius (missiles t ! k)")
  case True
  define t1 where "t1 = createExplosion (position (missiles t ! k)) 2 t"
  define t3 where "t3 = releaseMissileEmitter (missiles t ! k) t1"
  have h: "hitMissile k t = damagePlayer (removeMissileAt k (missiles t ! k) t3)"
    using True by (simp add: hitMissile_def Let_def t1_def t3_def)
  have e1: "extends t t1"
    unfolding t1_def by (intro extends_createExplosion extends_refl)
  then have e3: "extends t t3"
    unfolding t3_def by (intro extends_releaseMissileEmitter)
  have e5: "extends t3 (hitMissile k t)"
    unfolding h by (intro extends_damagePlayer extends_removeMissileAt extends_refl)
  have r1: "registered t1" using extendsD(2) [OF e1 reg] .
  have gone: "e \<notin> set (map eid (particleSystems (hitMissile k t)))"
    if e: "snd (map missileKey (missiles t) ! k) = Some e" for e
  proof -
    have em: "mexhaustEmitter (missiles t ! k) = Some e"
      using e k by (simp add: missileKey_def)
    have "e \<notin> set (map eid (particleSystems t3))"
      unfolding t3_def using r1 em by (rule release_missile_gone)
    moreover have "e < nextId t3"
      using bound [OF e] extendsD(1) [OF e3] by simp
    ultimately show ?thesis
      using gone_extends [OF e5] by blast
  qed
  have "map missileKey (missiles (hitMissile k t)) = splice1 k (map missileKey (missiles t))"
    using True by (simp add: frame map_splice1)
  then show ?thesis
    using extends_trans [OF e3 e5] gone by blast
next
  case False
  then have "hitMissile k t = t" by (simp add: hitMissile_def Let_def)
  then show ?thesis by (simp add: extends_refl)
qed

lemma moveMissile_gone:
  assumes reg: "registered t" and k: "k < length (map missileKey (missiles t))"
  shows "extends t (moveMissile k t) \<and>
         (map missileKey (missiles (moveMissile k t)) = map missileKey (missiles t) \<or>
          map missileKey (missiles (moveMissile k t)) = splice1 k (map missileKey (missiles t)) \<and>
          (\<forall>e. snd (map missileKey (missiles t) ! k) = Some e
                \<longrightarrow> e \<notin> set (map eid (particleSystems (moveMissile k t)))))"
proof -
  define m2 where "m2 = (missiles t ! k)
     \<lparr>position := addV (position (missiles t ! k))
                    (multiplyScalar (direction (missiles t ! k)) (mspeed (missiles t ! k))),
      lifeTime := Suc (lifeTime (missiles t ! k))\<rparr>"
  define t1 where "t1 = t\<lparr>missiles := (missiles t)[k := m2]\<rparr>"
  have key: "missileKey m2 = missileKey (missiles t ! k)"
    by (simp add: m2_def missileKey_def)
  have k': "k < length (missiles t)" using k by simp
  have keep: "map missileKey ((missiles t)[k := m2]) = map missileKey (missiles t)"
    using k' key by (simp add: map_update_same)
  have mm: "moveMissile k t =
     (if distanceTo (position m2) (ufo_position t1) > GAME_BOUNDS * 1.5 \<or> lifeTime m2 > 500
      then removeMissileAt k m2 (releaseMissileEmitter m2 t1) else t1)"
    unfolding moveMissile_def Let_def m2_def t1_def by simp
  have e1: "extends t t1"
    by (rule extends_same) (simp_all add: t1_def)
  have r1: "registered t1" using extendsD(2) [OF e1 reg] .
  show ?thesis
  proof (cases "distanceTo (position m2) (ufo_position t1) > GAME_BOUNDS * 1.5 \<or> lifeTime m2 > 500")
    case True
    then have r: "moveMissile k t = removeMissileAt k m2 (releaseMissileEmitter m2 t1)"
      using mm by simp
    have l: "missiles (moveMissile k t) = splice1 k (missiles t)"
      by (simp add: r frame t1_def splice1_update)
    have ps: "particleSystems (moveMissile k t) = particleSystems (releaseMissileEmitter m2 t1)"
      by (simp add: r frame)
    have "e \<notin> set (map eid (particleSystems (moveMissile k t)))"
      if "snd (map missileKey (missiles t) ! k) = Some e" for e
    proof -
      have "mexhaustEmitter m2 = Some e"
        using that k' key by (simp add: missileKey_def)
      then show ?thesis
        unfolding ps using r1 release_missile_gone by blast
    qed
    moreover have "extends t (moveMissile k t)"
      unfolding r using e1 by (intro extends_removeMissileAt extends_releaseMissileEmitter)
    ultimately show ?thesis
      using l by (simp add: map_splice1)
  next
    case False
    then have "moveMissile k t = t1" using mm by simp
    then show ?thesis using keep e1 by (simp add: t1_def)
  qed
qed

lemma moveJet_gone:
  assumes reg: "registered t" and k: "k < length (map jetKey (jets t))"
  shows "extends t (moveJet now k t) \<and>
         (map jetKey (jets (moveJet now k t)) = map jetKey (jets t) \<or>
          map jetKey (jets (moveJet now k t)) = splice1 k (map jetKey (jets t)) \<and>
          (\<forall>e. snd (snd (map jetKey (jets t) ! k)) = Some e
                \<longrightarrow> e \<notin> set (map eid (particleSystems (moveJet now k t)))))"
proof -
  define jet1 where "jet1 = (jets t ! k)
     \<lparr>target := ufo_position t,
      position := addV (position (jets t ! k))
        (multiplyScalar (normalizeV (subVectors (ufo_position t) (position (jets t ! k))))
           (speed (jets t ! k)))\<rparr>"
  define fire where "fire = (now - lastFired jet1 > fireRate jet1)"
  define t1 where "t1 = (if fire then
       createMissileModel (position jet1) (subVectors (ufo_position t) (position jet1)) t
     else t)"
  define jet2 where "jet2 = (if fire then jet1\<lparr>lastFired := now\<rparr> else jet1)"
  define t2 where "t2 = t1\<lparr>jets := (jets t1)[k := jet2]\<rparr>"
  have mj: "moveJet now k t =
     (if distanceTo (position jet2) (ufo_position t2) > GAME_BOUNDS * 1.5
      then removeJetAt k jet2 (releaseJetEmitter jet2 (stopEngineSound jet2 t2)) else t2)"
    unfolding moveJet_def Let_def jet1_def fire_def t1_def jet2_def t2_def by (rule refl)
  have key: "jetKey jet2 = jetKey (jets t ! k)"
    by (simp add: jet2_def jet1_def jetKey_def)
  have k': "k < length (jets t)" using k by simp
  have j1: "jets t1 = jets t" by (simp add: t1_def frame)
  have j2: "jets t2 = (jets t)[k := jet2]" by (simp add: t2_def j1)
  have e1: "extends t t1"
    unfolding t1_def by (simp add: extends_refl extends_createMissileModel)
  have "extends t1 t2"
    by (rule extends_same) (simp_all add: t2_def)
  then have e2: "extends t t2" using e1 extends_trans by blast
  have r2: "registered t2" using extendsD(2) [OF e2 reg] .
  show ?thesis
  proof (cases "distanceTo (position jet2) (ufo_position t2) > GAME_BOUNDS * 1.5")
    case True
    then have r: "moveJet now k t
        = removeJetAt k jet2 (releaseJetEmitter jet2 (stopEngineSound jet2 t2))"
      using mj by simp
    have l: "jets (moveJet now k t) = splice1 k (jets t)"
      by (simp add: r frame j2 splice1_update)
    have ps: "particleSystems (moveJet now k t)
        = particleSystems (releaseJetEmitter jet2 (stopEngineSound jet2 t2))"
      by (simp add: r frame)
    have "e \<notin> set (map eid (particleSystems (moveJet now k t)))"
      if "snd (snd (map jetKey (jets t) ! k)) = Some e" for e
    proof -
      have "exhaustEmitter jet2 = Some e"
        using that k' key by (simp add: jetKey_def)
      then show ?thesis
        unfolding ps using r2 release_jet_gone by blast
    qed
    moreover have "extends t (moveJet now k t)"
      unfolding r using e2
      by (intro extends_removeJetAt extends_releaseJetEmitter extends_stopEngineSound)
    ultimately show ?thesis
      using l by (simp add: map_splice1)
  next
    case False
    then have "moveJet now k t = t2" using mj by simp
    then show ?thesis using k' key e2 by (simp add: j2 map_update_same)
  qed
qed

subsection \<open>A pass takes the emitters of the removed entities out of the list\<close>

lemma pass_gone:
  fixes keyl :: "game \<Rightarrow> 'k list" and em :: "'k \<Rightarrow> nat option"
  assumes len: "\<And>t. len t = length (keyl t)"
    and d: "distinct (keyl s)" and reg: "registered s"
    and bound: "\<And>\<kappa> e. \<kappa> \<in> set (keyl s) \<Longrightarrow> em \<kappa> = Some e \<Longrightarrow> e < nextId s"
    and step: "\<And>k t. k < length (keyl t) \<Longrightarrow> registered t \<Longrightarrow>
         (\<And>e. em (keyl t ! k) = Some e \<Longrightarrow> e < nextId t) \<Longrightarrow>
         extends t (cb k t) \<and>
         (keyl (cb k t) = keyl t \<or>
          keyl (cb k t) = splice1 k (keyl t) \<and>
          (\<forall>e. em (keyl t ! k) = Some e \<longrightarrow> e \<notin> set (map eid (particleSystems (cb k t)))))"
  shows "extends s (forEach_from len cb k0 n s) \<and>
         set (keyl (forEach_from len cb k0 n s)) \<subseteq> set (keyl s) \<and>
         distinct (keyl (forEach_from len cb k0 n s)) \<and>
         (\<forall>\<kappa> \<in> set (keyl s) - set (keyl (forEach_from len cb k0 n s)). \<forall>e. em \<kappa> = Some e
             \<longrightarrow> e \<notin> set (map eid (particleSystems (forEach_from len cb k0 n s))))"
proof (rule forEach_from_invariant
    [where P = "\<lambda>t. extends s t \<and> set (keyl t) \<subseteq> set (keyl s) \<and> distinct (keyl t) \<and>
                     (\<forall>\<kappa> \<in> set (keyl s) - set (keyl t). \<forall>e. em \<kappa> = Some e
                         \<longrightarrow> e \<notin> set (map eid (particleSystems t)))"])
  show "extends s s \<and> set (keyl s) \<subseteq> set (keyl s) \<and> distinct (keyl s) \<and>
        (\<forall>\<kappa> \<in> set (keyl s) - set (keyl s). \<forall>e. em \<kappa> = Some e
            \<longrightarrow> e \<notin> set (map eid (particleSystems s)))"
    using d by (simp add: extends_refl)
next
  fix k and t :: game
  assume inv: "extends s t \<and> set (keyl t) \<subseteq> set (keyl s) \<and> distinct (keyl t) \<and>
               (\<forall>\<kappa> \<in> set (keyl s) - set (keyl t). \<forall>e. em \<kappa> = Some e
                   \<longrightarrow> e \<notin> set (map eid (particleSystems t)))"
    and "k < len t"
  then have k: "k < length (keyl t)" by (simp add: len)
  have ex: "extends s t" and sub: "set (keyl t) \<subseteq> set (keyl s)" and dt: "distinct (keyl t)"
    and gone: "\<And>\<kappa> e. \<kappa> \<in> set (keyl s) \<Longrightarrow> \<kappa> \<notin> set (keyl t) \<Longrightarrow> em \<kappa> = Some e
                 \<Longrightarrow> e \<notin> set (map eid (particleSystems t))"
    using inv by auto
  have rt: "registered t" using extendsD(2) [OF ex reg] .
  have nt: "nextId s \<le> nextId t" using extendsD(1) [OF ex] .
  have mem: "keyl t ! k \<in> set (keyl t)" using k by simp
  have bt: "\<And>e. em (keyl t ! k) = Some e \<Longrightarrow> e < nextId t"
    using bound [of "keyl t ! k"] mem sub nt by fastforce
  note st = step [OF k rt bt]
  have e': "extends t (cb k t)" using st by simp
  have keepgone: "e \<notin> set (map eid (particleSystems (cb k t)))"
    if "\<kappa> \<in> set (keyl s)" "\<kappa> \<notin> set (keyl t)" "em \<kappa> = Some e" for \<kappa> e
  proof -
    have "e \<notin> set (map eid (particleSystems t))" using gone that by blast
    moreover have "e < nextId t" using bound [OF that(1,3)] nt by simp
    ultimately show ?thesis using gone_extends [OF e'] by blast
  qed
  from st have "keyl (cb k t) = keyl t \<or>
      keyl (cb k t) = splice1 k (keyl t) \<and>
      (\<forall>e. em (keyl t ! k) = Some e \<longrightarrow> e \<notin> set (map eid (particleSystems (cb k t))))"
    by simp
  then show "extends s (cb k t) \<and> set (keyl (cb k t)) \<subseteq> set (keyl s) \<and>
        distinct (keyl (cb k t)) \<and>
        (\<forall>\<kappa> \<in> set (keyl s) - set (keyl (cb k t)). \<forall>e. em \<kappa> = Some e
            \<longrightarrow> e \<notin> set (map eid (particleSystems (cb k t))))"
  proof
    assume same: "keyl (cb k t) = keyl t"
    show ?thesis
      using extends_trans [OF ex e'] sub dt keepgone by (simp add: same) blast
  next
    assume r: "keyl (cb k t) = splice1 k (keyl t) \<and>
      (\<forall>e. em (keyl t ! k) = Some e \<longrightarrow> e \<notin> set (map eid (particleSystems (cb k t))))"
    have st': "set (keyl (cb k t)) = set (keyl t) - {keyl t ! k}"
      using r dt k by (simp add: set_splice1_distinct)
    have "e \<notin> set (map eid (particleSystems (cb k t)))"
      if a: "\<kappa> \<in> set (keyl s)" "\<kappa> \<notin> set (keyl (cb k t))" "em \<kappa> = Some e" for \<kappa> e
    proof (cases "\<kappa> = keyl t ! k")
      case True
      then show ?thesis using r a(3) by simp
    next
      case False
      then have "\<kappa> \<notin> set (keyl t)" using a(2) st' by simp
      then show ?thesis using keepgone a by blast
    qed
    moreover have "distinct (keyl (cb k t))" using r dt by (simp add: distinct_splice1)
    moreover have "set (keyl (cb k t)) \<subseteq> set (keyl s)" using st' sub by blast
    ultimately show ?thesis
      using extends_trans [OF ex e'] by blast
  qed
qed

lemma jets_pass_gone:
  assumes cb: "cb = hitJet \<or> cb = moveJet now"
    and d1: "distinct (map oid (jets s))" and reg: "registered s"
    and bound: "\<And>a e. a \<in> set (jets s) \<Longrightarrow> exhaustEmitter a = Some e \<Longrightarrow> e < nextId s"
  shows "extends s (forEach (\<lambda>t. length (jets t)) cb s)"
    and "\<And>j e. j \<in> set (jets s) \<Longrightarrow> exhaustEmitter j = Some e \<Longrightarrow>
           oid j \<notin> set (map oid (jets (forEach (\<lambda>t. length (jets t)) cb s))) \<Longrightarrow>
           e \<notin> set (map eid (particleSystems (forEach (\<lambda>t. length (jets t)) cb s)))"
proof -
  define s' where "s' = forEach (\<lambda>t. length (jets t)) cb s"
  have dk: "distinct (map jetKey (jets s))"
    using d1 jetKey_oid by (rule distinct_keys)
  have i1: "inj_on oid (set (jets s))"
    using d1 by (simp add: distinct_map)
  have p: "extends s s' \<and> set (map jetKey (jets s')) \<subseteq> set (map jetKey (jets s)) \<and>
        distinct (map jetKey (jets s')) \<and>
        (\<forall>\<kappa> \<in> set (map jetKey (jets s)) - set (map jetKey (jets s')). \<forall>e. snd (snd \<kappa>) = Some e
            \<longrightarrow> e \<notin> set (map eid (particleSystems s')))"
    unfolding s'_def forEach_def
  proof (rule pass_gone [where keyl = "\<lambda>t. map jetKey (jets t)" and em = "\<lambda>\<kappa>. snd (snd \<kappa>)"])
    show "\<And>t. length (jets t) = length (map jetKey (jets t))" by simp
    show "distinct (map jetKey (jets s))" by (rule dk)
    show "registered s" by (rule reg)
    show "\<And>\<kappa> e. \<kappa> \<in> set (map jetKey (jets s)) \<Longrightarrow> snd (snd \<kappa>) = Some e \<Longrightarrow> e < nextId s"
      using bound by (auto simp add: jetKey_def)
    fix k and t :: game
    assume k: "k < length (map jetKey (jets t))" and rt: "registered t"
      and bt: "\<And>e. snd (snd (map jetKey (jets t) ! k)) = Some e \<Longrightarrow> e < nextId t"
    show "extends t (cb k t) \<and>
          (map jetKey (jets (cb k t)) = map jetKey (jets t) \<or>
           map jetKey (jets (cb k t)) = splice1 k (map jetKey (jets t)) \<and>
           (\<forall>e. snd (snd (map jetKey (jets t) ! k)) = Some e
                 \<longrightarrow> e \<notin> set (map eid (particleSystems (cb k t)))))"
      using cb hitJet_gone [OF rt k bt] moveJet_gone [OF rt k, of now] by blast
  qed
  show "extends s (forEach (\<lambda>t. length (jets t)) cb s)"
    using p by (simp add: s'_def)
  fix j e
  assume j: "j \<in> set (jets s)" and em: "exhaustEmitter j = Some e"
    and g: "oid j \<notin> set (map oid (jets (forEach (\<lambda>t. length (jets t)) cb s)))"
  have sub: "set (map jetKey (jets s')) \<subseteq> set (map jetKey (jets s))" using p by simp
  have "jetKey j \<in> set (map jetKey (jets s')) \<longleftrightarrow> oid j \<in> set (map oid (jets s'))"
    using i1 jetKey_oid sub j by (rule key_gone)
  then have "jetKey j \<notin> set (map jetKey (jets s'))" using g by (simp add: s'_def)
  moreover have "jetKey j \<in> set (map jetKey (jets s))" using j by simp
  moreover have "snd (snd (jetKey j)) = Some e" using em by (simp add: jetKey_def)
  ultimately have "e \<notin> set (map eid (particleSystems s'))" using p by blast
  then show "e \<notin> set (map eid (particleSystems (forEach (\<lambda>t. length (jets t)) cb s)))"
    by (simp add: s'_def)
qed

lemma missiles_pass_gone:
  assumes cb: "cb = hitMissile \<or> cb = moveMissile"
    and d1: "distinct (map oid (missiles s))" and reg: "registered s"
    and bound: "\<And>a e. a \<in> set (missiles s) \<Longrightarrow> mexhaustEmitter a = Some e \<Longrightarrow> e < nextId s"
  shows "extends s (forEach (\<lambda>t. length (missiles t)) cb s)"
    and "\<And>m e. m \<in> set (missiles s) \<Longrightarrow> mexhaustEmitter m = Some e \<Longrightarrow>
           oid m \<notin> set (map oid (missiles (forEach (\<lambda>t. length (missiles t)) cb s))) \<Longrightarrow>
           e \<notin> set (map eid (particleSystems (forEach (\<lambda>t. length (missiles t)) cb s)))"
proof -
  define s' where "s' = forEach (\<lambda>t. length (missiles t)) cb s"
  have dk: "distinct (map missileKey (missiles s))"
    using d1 missileKey_oid by (rule distinct_keys)
  have i1: "inj_on oid (set (missiles s))"
    using d1 by (simp add: distinct_map)
  have p: "extends s s' \<and> set (map missileKey (missiles s')) \<subseteq> set (map missileKey (missiles s)) \<and>
        distinct (map missileKey (missiles s')) \<and>
        (\<forall>\<kappa> \<in> set (map missileKey (missiles s)) - set (map missileKey (missiles s')).
            \<forall>e. snd \<kappa> = Some e \<longrightarrow> e \<notin> set (map eid (particleSystems s')))"
    unfolding s'_def forEach_def
  proof (rule pass_gone [where keyl = "\<lambda>t. map missileKey (missiles t)" and em = snd])
    show "\<And>t. length (missiles t) = length (map missileKey (missiles t))" by simp
    show "distinct (map missileKey (missiles s))" by (rule dk)
    show "registered s" by (rule reg)
    show "\<And>\<kappa> e. \<kappa> \<in> set (map missileKey (missiles s)) \<Longrightarrow> snd \<kappa> = Some e \<Longrightarrow> e < nextId s"
      using bound by (auto simp add: missileKey_def)
    fix k and t :: game
    assume k: "k < length (map missileKey (missiles t))" and rt: "registered t"
      and bt: "\<And>e. snd (map missileKey (missiles t) ! k) = Some e \<Longrightarrow> e < nextId t"
    show "extends t (cb k t) \<and>
          (map missileKey (missiles (cb k t)) = map missileKey (missiles t) \<or>
           map missileKey (missiles (cb k t)) = splice1 k (map missileKey (missiles t)) \<and>
           (\<forall>e. snd (map missileKey (missiles t) ! k) = Some e
                 \<longrightarrow> e \<notin> set (map eid (particleSystems (cb k t)))))"
      using cb hitMissile_gone [OF rt k bt] moveMissile_gone [OF rt k] by blast
  qed
  show "extends s (forEach (\<lambda>t. length (missiles t)) cb s)"
    using p by (simp add: s'_def)
  fix m e
  assume m: "m \<in> set (missiles s)" and em: "mexhaustEmitter m = Some e"
    and g: "oid m \<notin> set (map oid (missiles (forEach (\<lambda>t. length (missiles t)) cb s)))"
  have sub: "set (map missileKey (missiles s')) \<subseteq> set (map missileKey (missiles s))"
    using p by simp
  have "missileKey m \<in> set (map missileKey (missiles s')) \<longleftrightarrow> oid m \<in> set (map oid (missiles s'))"
    using i1 missileKey_oid sub m by (rule key_gone)
  then have "missileKey m \<notin> set (map missileKey (missiles s'))" using g by (simp add: s'_def)
  moreover have "missileKey m \<in> set (map missileKey (missiles s))" using m by simp
  moreover have "snd (missileKey m) = Some e" using em by (simp add: missileKey_def)
  ultimately have "e \<notin> set (map eid (particleSystems s'))" using p by blast
  then show "e \<notin> set (map eid (particleSystems (forEach (\<lambda>t. length (missiles t)) cb s)))"
    by (simp add: s'_def)
qed

subsection \<open>The three functions that remove entities\<close>

lemma ownsHandles_jets:
  assumes "ownsHandles s"
  shows "distinct (map oid (jets s))" "distinct (map exhaustEmitter (jets s))"
    and "\<And>a. a \<in> set (jets s) \<Longrightarrow>
           oid a < nextId s \<and> (case engineSound a of None \<Rightarrow> False | Some es \<Rightarrow> isPlaying es) \<and>
           (\<exists>e. exhaustEmitter a = Some e \<and> e < nextId s)"
    and "registered s"
proof -
  show "distinct (map oid (jets s))" "distinct (map exhaustEmitter (jets s))" "registered s"
    using assms by (simp_all add: ownsHandles_def)
  fix a assume a: "a \<in> set (jets s)"
  have "oid a < nextId s \<and>
        (case engineSound a of None \<Rightarrow> False | Some es \<Rightarrow> isPlaying es) \<and>
        (case exhaustEmitter a of None \<Rightarrow> False | Some e \<Rightarrow> e < nextId s)"
    using assms a by (simp add: ownsHandles_def list_all_iff)
  then show "oid a < nextId s \<and>
        (case engineSound a of None \<Rightarrow> False | Some es \<Rightarrow> isPlaying es) \<and>
        (\<exists>e. exhaustEmitter a = Some e \<and> e < nextId s)"
    by (cases "exhaustEmitter a") simp_all
qed

lemma ownsHandles_missiles:
  assumes "ownsHandles s"
  shows "distinct (map oid (missiles s))" "distinct (map mexhaustEmitter (missiles s))"
    and "\<And>b. b \<in> set (missiles s) \<Longrightarrow> \<exists>e. mexhaustEmitter b = Some e \<and> e < nextId s"
    and "\<And>a b. a \<in> set (jets s) \<Longrightarrow> b \<in> set (missiles s) \<Longrightarrow>
           exhaustEmitter a \<noteq> mexhaustEmitter b"
proof -
  show "distinct (map oid (missiles s))" "distinct (map mexhaustEmitter (missiles s))"
    using assms by (simp_all add: ownsHandles_def)
  show "\<exists>e. mexhaustEmitter b = Some e \<and> e < nextId s" if b: "b \<in> set (missiles s)" for b
  proof -
    have "case mexhaustEmitter b of None \<Rightarrow> False | Some e \<Rightarrow> e < nextId s"
      using assms b by (simp add: ownsHandles_def list_all_iff)
    then show ?thesis by (cases "mexhaustEmitter b") simp_all
  qed
  have "set (map exhaustEmitter (jets s)) \<inter> set (map mexhaustEmitter (missiles s)) = {}"
    using assms by (simp add: ownsHandles_def)
  then show "\<And>a b. a \<in> set (jets s) \<Longrightarrow> b \<in> set (missiles s) \<Longrightarrow>
           exhaustEmitter a \<noteq> mexhaustEmitter b"
    by (metis disjoint_iff image_eqI set_map)
qed

lemma jetReleasedI:
  assumes "exhaustEmitter j = Some e"
    and "count_list (events s') (EngineSoundStop (oid j))
           = count_list (events s) (EngineSoundStop (oid j))
             + (if oid j \<in> set (map oid (jets s')) then 0 else 1) \<and>
         count_list (events s') (RemoveEmitter e)
           = count_list (events s) (RemoveEmitter e)
             + (if oid j \<in> set (map oid (jets s')) then 0 else 1)"
    and "oid j \<notin> set (map oid (jets s')) \<Longrightarrow> e \<notin> set (map eid (particleSystems s'))"
  shows "jetReleased j s s'"
  using assms by (simp add: jetReleased_def)

lemma missileReleasedI:
  assumes "mexhaustEmitter m = Some e"
    and "count_list (events s') (RemoveEmitter e)
           = count_list (events s) (RemoveEmitter e)
             + (if oid m \<in> set (map oid (missiles s')) then 0 else 1)"
    and "oid m \<notin> set (map oid (missiles s')) \<Longrightarrow> e \<notin> set (map eid (particleSystems s'))"
  shows "missileReleased m s s'"
  using assms by (simp add: missileReleased_def)

lemma updateJets_released:
  assumes o: "ownsHandles s"
  shows "(\<forall>j \<in> set (jets s). jetReleased j s (updateJets now s)) \<and>
         (now - lastJetSpawn s > currentSpawnInterval s \<longrightarrow>
            jetReleased (last (jets (spawnJet s))) s (updateJets now s))"
proof -
  define s1 where "s1 = (if now - lastJetSpawn s > currentSpawnInterval s
                         then (spawnJet s)\<lparr>lastJetSpawn := now\<rparr> else s)"
  have u: "updateJets now s = forEach (\<lambda>t. length (jets t)) (moveJet now) s1"
    by (simp add: updateJets_def s1_def)
  have ev: "events s1 = events s" by (simp add: s1_def frame)
  obtain jn where jn: "jets (spawnJet s) = jets s @ [jn]" "oid jn = nextId s"
    "engineSound jn = Some \<lparr>isPlaying = True\<rparr>" "exhaustEmitter jn = Some (Suc (nextId s))"
    using jets_spawnJet [of s] by blast
  obtain e0 where sp: "particleSystems (spawnJet s) = particleSystems s @ [e0]"
    "eid e0 = Suc (nextId s)" "nextId (spawnJet s) = Suc (Suc (nextId s))"
    using particleSystems_spawnJet [of s] by blast
  note oj = ownsHandles_jets [OF o]
  have "extends (spawnJet s) ((spawnJet s)\<lparr>lastJetSpawn := now\<rparr>)"
    by (rule extends_same) simp_all
  then have e1: "extends s s1"
    using extends_trans [OF extends_spawnJet] by (simp add: s1_def extends_refl)
  have r1: "registered s1" using extendsD(2) [OF e1 oj(4)] .
  have n1: "nextId s1 = (if now - lastJetSpawn s > currentSpawnInterval s
                         then Suc (Suc (nextId s)) else nextId s)"
    by (simp add: s1_def sp(3))
  have fresh: "oid jn \<notin> set (map oid (jets s))"
    "exhaustEmitter jn \<notin> set (map exhaustEmitter (jets s))"
    using oj(3) jn(2,4) by fastforce+
  have d1: "distinct (map oid (jets s1))" and d2: "distinct (map exhaustEmitter (jets s1))"
    using oj(1,2) fresh by (simp_all add: s1_def jn(1))
  have own: "(case engineSound a of None \<Rightarrow> False | Some es \<Rightarrow> isPlaying es) \<and>
      (\<exists>e. exhaustEmitter a = Some e \<and> e < nextId s1)" if a: "a \<in> set (jets s1)" for a
  proof -
    consider "a \<in> set (jets s)" | "a = jn" "now - lastJetSpawn s > currentSpawnInterval s"
      using a by (auto simp add: s1_def jn(1) split: if_splits)
    then show ?thesis
    proof cases
      case 1
      obtain e where "exhaustEmitter a = Some e" "e < nextId s"
        using oj(3) [OF 1] by blast
      moreover have "nextId s \<le> nextId s1" by (simp add: n1)
      ultimately have "\<exists>e. exhaustEmitter a = Some e \<and> e < nextId s1" by fastforce
      then show ?thesis using oj(3) [OF 1] by simp
    next
      case 2
      then show ?thesis by (simp add: jn(3,4) n1)
    qed
  qed
  have b1: "\<And>a e. a \<in> set (jets s1) \<Longrightarrow> exhaustEmitter a = Some e \<Longrightarrow> e < nextId s1"
    using own by fastforce
  have rel: "\<And>a. a \<in> set (jets s1) \<Longrightarrow> jetReleased a s (updateJets now s)"
  proof -
    fix a assume a: "a \<in> set (jets s1)"
    obtain e where e: "exhaustEmitter a = Some e" using own [OF a] by blast
    have c: "count_list (events (updateJets now s)) (EngineSoundStop (oid a))
           = count_list (events s) (EngineSoundStop (oid a))
             + (if oid a \<in> set (map oid (jets (updateJets now s))) then 0 else 1) \<and>
         count_list (events (updateJets now s)) (RemoveEmitter e)
           = count_list (events s) (RemoveEmitter e)
             + (if oid a \<in> set (map oid (jets (updateJets now s))) then 0 else 1)"
      unfolding u ev [symmetric] using d1 d2 a own [OF a] e
      by (intro jets_pass_calls [where now = now and e = e]) simp_all
    have g: "oid a \<notin> set (map oid (jets (updateJets now s))) \<Longrightarrow>
             e \<notin> set (map eid (particleSystems (updateJets now s)))"
      unfolding u using jets_pass_gone(2) [of "moveJet now" now s1 a e, OF _ d1 r1 b1] a e
      by simp
    show "jetReleased a s (updateJets now s)"
      using e c g by (rule jetReleasedI)
  qed
  have "\<And>j. j \<in> set (jets s) \<Longrightarrow> j \<in> set (jets s1)"
    by (simp add: s1_def jn(1))
  moreover have "now - lastJetSpawn s > currentSpawnInterval s \<Longrightarrow>
      last (jets (spawnJet s)) \<in> set (jets s1)"
    by (simp add: s1_def jn(1))
  ultimately show ?thesis using rel by blast
qed

lemma updateMissiles_released:
  assumes o: "ownsHandles s" and m: "m \<in> set (missiles s)"
  shows "missileReleased m s (updateMissiles s)"
proof -
  note om = ownsHandles_missiles [OF o]
  have reg: "registered s" using ownsHandles_jets(4) [OF o] .
  obtain e where e: "mexhaustEmitter m = Some e" using om(3) [OF m] by blast
  have b: "\<And>a e. a \<in> set (missiles s) \<Longrightarrow> mexhaustEmitter a = Some e \<Longrightarrow> e < nextId s"
    using om(3) by fastforce
  have c: "count_list (events (updateMissiles s)) (RemoveEmitter e)
           = count_list (events s) (RemoveEmitter e)
             + (if oid m \<in> set (map oid (missiles (updateMissiles s))) then 0 else 1)"
    unfolding updateMissiles_def using om(1,2) m e
    by (intro missiles_pass_calls [where e = e]) simp_all
  have g: "oid m \<notin> set (map oid (missiles (updateMissiles s))) \<Longrightarrow>
           e \<notin> set (map eid (particleSystems (updateMissiles s)))"
    unfolding updateMissiles_def
    using missiles_pass_gone(2) [of moveMissile s m e, OF _ om(1) reg b] m e by simp
  show ?thesis using e c g by (rule missileReleasedI)
qed

lemma checkCollisions_released:
  assumes o: "ownsHandles s"
  shows "(\<forall>j \<in> set (jets s). jetReleased j s (checkCollisions s)) \<and>
         (\<forall>m \<in> set (missiles s). missileReleased m s (checkCollisions s))"
proof -
  define s1 where "s1 = forEach (\<lambda>t. length (jets t)) hitJet s"
  have cc: "checkCollisions s = forEach (\<lambda>t. length (missiles t)) hitMissile s1"
    by (simp add: checkCollisions_def s1_def)
  have j2: "jets (checkCollisions s) = jets s1"
    by (simp add: cc forEach_keeps frame)
  have m1: "missiles s1 = missiles s"
    by (simp add: s1_def forEach_keeps frame)
  note oj = ownsHandles_jets [OF o]
  note om = ownsHandles_missiles [OF o]
  have bj: "\<And>a e. a \<in> set (jets s) \<Longrightarrow> exhaustEmitter a = Some e \<Longrightarrow> e < nextId s"
    using oj(3) by fastforce
  have e1: "extends s s1"
    unfolding s1_def using jets_pass_gone(1) [of hitJet 0 s, OF _ oj(1,4) bj] by simp
  have r1: "registered s1" using extendsD(2) [OF e1 oj(4)] .
  have n1: "nextId s \<le> nextId s1" using extendsD(1) [OF e1] .
  have dm1: "distinct (map oid (missiles s1))" using om(1) by (simp add: m1)
  have bm: "\<And>a e. a \<in> set (missiles s1) \<Longrightarrow> mexhaustEmitter a = Some e \<Longrightarrow> e < nextId s1"
    using om(3) n1 by (fastforce simp add: m1)
  have e2: "extends s1 (checkCollisions s)"
    unfolding cc using missiles_pass_gone(1) [of hitMissile s1, OF _ dm1 r1 bm] by simp
  have "jetReleased j s (checkCollisions s)" if j: "j \<in> set (jets s)" for j
  proof -
    obtain e where e: "exhaustEmitter j = Some e" and lt: "e < nextId s"
      using oj(3) [OF j] by blast
    have c1: "count_list (events s1) (EngineSoundStop (oid j))
           = count_list (events s) (EngineSoundStop (oid j))
             + (if oid j \<in> set (map oid (jets s1)) then 0 else 1) \<and>
         count_list (events s1) (RemoveEmitter e)
           = count_list (events s) (RemoveEmitter e)
             + (if oid j \<in> set (map oid (jets s1)) then 0 else 1)"
      unfolding s1_def using oj(1,2) j oj(3) [OF j] e
      by (intro jets_pass_calls [where now = 0 and e = e]) simp_all
    have no: "\<And>b. b \<in> set (missiles s1) \<Longrightarrow> mexhaustEmitter b \<noteq> Some e"
      using om(4) [OF j] e by (simp add: m1) metis
    have "count_list (events (checkCollisions s)) (EngineSoundStop (oid j))
            = count_list (events s1) (EngineSoundStop (oid j))"
      and "count_list (events (checkCollisions s)) (RemoveEmitter e)
            = count_list (events s1) (RemoveEmitter e)"
      unfolding cc using missiles_pass_other [of hitMissile s1, OF _ dm1] no by simp_all
    then have c: "count_list (events (checkCollisions s)) (EngineSoundStop (oid j))
           = count_list (events s) (EngineSoundStop (oid j))
             + (if oid j \<in> set (map oid (jets (checkCollisions s))) then 0 else 1) \<and>
         count_list (events (checkCollisions s)) (RemoveEmitter e)
           = count_list (events s) (RemoveEmitter e)
             + (if oid j \<in> set (map oid (jets (checkCollisions s))) then 0 else 1)"
      using c1 by (simp add: j2)
    have g: "e \<notin> set (map eid (particleSystems (checkCollisions s)))"
      if "oid j \<notin> set (map oid (jets (checkCollisions s)))"
    proof -
      have "e \<notin> set (map eid (particleSystems s1))"
        unfolding s1_def
        using jets_pass_gone(2) [of hitJet 0 s j e, OF _ oj(1,4) bj] j e that
        by (simp add: j2 s1_def)
      moreover have "e < nextId s1" using lt n1 by simp
      ultimately show ?thesis using gone_extends [OF e2] by blast
    qed
    show ?thesis using e c g by (rule jetReleasedI)
  qed
  moreover have "missileReleased m s (checkCollisions s)" if m: "m \<in> set (missiles s)" for m
  proof -
    obtain e where e: "mexhaustEmitter m = Some e" using om(3) [OF m] by blast
    have c2: "count_list (events (checkCollisions s)) (RemoveEmitter e)
           = count_list (events s1) (RemoveEmitter e)
             + (if oid m \<in> set (map oid (missiles (checkCollisions s))) then 0 else 1)"
      unfolding cc using om(1,2) m e
      by (intro missiles_pass_calls [where e = e]) (simp_all add: m1)
    have no: "\<And>a. a \<in> set (jets s) \<Longrightarrow> exhaustEmitter a \<noteq> Some e"
      using om(4) [OF _ m] e by simp
    have "count_list (events s1) (RemoveEmitter e) = count_list (events s) (RemoveEmitter e)"
      unfolding s1_def using jets_pass_other [of hitJet 0 s e, OF _ oj(1)] no by simp
    then have c: "count_list (events (checkCollisions s)) (RemoveEmitter e)
           = count_list (events s) (RemoveEmitter e)
             + (if oid m \<in> set (map oid (missiles (checkCollisions s))) then 0 else 1)"
      using c2 by simp
    have g: "oid m \<notin> set (map oid (missiles (checkCollisions s))) \<Longrightarrow>
             e \<notin> set (map eid (particleSystems (checkCollisions s)))"
      unfolding cc
      using missiles_pass_gone(2) [of hitMissile s1 m e, OF _ dm1 r1 bm] m e
      by (simp add: m1)
    show ?thesis using e c g by (rule missileReleasedI)
  qed
  ultimately show ?thesis by blast
qed

text \<open>
  C9.  In a state in which every jet and every missile owns its handles, each of the three
  functions that remove entities issues the release calls together with the removal: for
  every jet of the registry (and for the jet that \<^verbatim>\<open>updateJets\<close> spawns at its start), the
  call of \<^verbatim>\<open>updateJets\<close> (out of bounds) and the call of \<^verbatim>\<open>checkCollisions\<close> (collision) each
  issue the stop of its engine sound and the removal of its exhaust emitter exactly once if
  the jet has left the registry when the call returns, and then the emitter is no longer
  in the emitter list; they issue neither if the jet is still in the registry.  For every
  missile, the call of \<^verbatim>\<open>updateMissiles\<close> (out of bounds, age limit) and the call of
  \<^verbatim>\<open>checkCollisions\<close> issue the removal of its emitter exactly once if the missile has left
  the registry, and then the emitter is no longer in the emitter list; they do not issue
  it otherwise.
\<close>

theorem release_at_removal:
  assumes "ownsHandles s"
  shows "(\<forall>j \<in> set (jets s).
            jetReleased j s (updateJets now s) \<and> jetReleased j s (checkCollisions s)) \<and>
         (now - lastJetSpawn s > currentSpawnInterval s \<longrightarrow>
            jetReleased (last (jets (spawnJet s))) s (updateJets now s)) \<and>
         (\<forall>m \<in> set (missiles s).
            missileReleased m s (updateMissiles s) \<and> missileReleased m s (checkCollisions s))"
  using updateJets_released [OF assms, of now] checkCollisions_released [OF assms]
    updateMissiles_released [OF assms]
  by blast

lemma crowded_fields:
  "jets crowded = [jetAt 1 100 (vec 0 20 4), jetAt 2 101 (vec 0 20 4), jetAt 3 102 (vec 0 20 4)]"
  "map oid (missiles crowded) = [103, 105, 107]"
  "map mexhaustEmitter (missiles crowded) = [Some 104, Some 106, Some 108]"
  "nextId crowded = 109"
  "events crowded = [Play ''jet'' ''missile'', Play ''jet'' ''missile'', Play ''jet'' ''missile'']"
  by (simp_all add: crowded_def frame events_createMissileModel threeExhausts_frame
      threeExhausts_def createEngineExhaust_def snd_createEmitter game0_def)

lemma eids_createMissileModel:
  "map eid (particleSystems (createMissileModel p d t))
     = map eid (particleSystems t) @ [Suc (nextId t)]"
  using particleSystems_createMissileModel [of p d t] by auto

lemma eids_crowded: "map eid (particleSystems crowded) = [100, 101, 102, 104, 106, 108]"
  by (simp add: crowded_def eids_createMissileModel frame threeExhausts_def
      createEngineExhaust_def snd_createEmitter game0_def)

lemma ownsHandles_crowded: "ownsHandles crowded"
proof -
  have "list_all (\<lambda>e. case e of None \<Rightarrow> False | Some e \<Rightarrow> e < nextId crowded)
          (map mexhaustEmitter (missiles crowded))"
    by (simp add: crowded_fields)
  then have m: "list_all (\<lambda>m. case mexhaustEmitter m of None \<Rightarrow> False | Some e \<Rightarrow> e < nextId crowded)
          (missiles crowded)"
    by (simp add: list_all_iff)
  have "list_all (\<lambda>i. i < nextId crowded) (map eid (particleSystems crowded))"
    by (simp add: eids_crowded crowded_fields)
  then have "list_all (\<lambda>p. eid p < nextId crowded) (particleSystems crowded)"
    by (simp add: list_all_iff)
  then have "registered crowded"
    by (simp add: registered_def eids_crowded)
  then show ?thesis
    unfolding ownsHandles_def using m by (simp add: crowded_fields jetAt_def)
qed

lemma jets_after_crowded:
  "jets (checkCollisions crowded) = [jetAt 2 101 (vec 0 20 4)]"
  by (simp add: checkCollisions_def forEach_def forEach_keeps frame crowded_def
      threeExhausts_frame jetAt_def distance_on_z splice1_def)

theorem release_at_removal_witness:
  "ownsHandles crowded \<and>
   map oid (jets crowded) = [1, 2, 3] \<and>
   map oid (jets (checkCollisions crowded)) = [2] \<and>
   count_list (events crowded) (EngineSoundStop 1) = 0 \<and>
   count_list (events crowded) (RemoveEmitter 100) = 0 \<and>
   100 \<in> set (map eid (particleSystems crowded)) \<and>
   count_list (events (checkCollisions crowded)) (EngineSoundStop 1) = 1 \<and>
   count_list (events (checkCollisions crowded)) (RemoveEmitter 100) = 1 \<and>
   100 \<notin> set (map eid (particleSystems (checkCollisions crowded))) \<and>
   count_list (events (checkCollisions crowded)) (EngineSoundStop 2) = 0 \<and>
   count_list (events (checkCollisions crowded)) (RemoveEmitter 101) = 0"
proof -
  have "jetReleased (jetAt 1 100 (vec 0 20 4)) crowded (checkCollisions crowded)"
    and "jetReleased (jetAt 2 101 (vec 0 20 4)) crowded (checkCollisions crowded)"
    using release_at_removal [OF ownsHandles_crowded, of 0] by (simp_all add: crowded_fields)
  then show ?thesis
    by (simp add: jetReleased_def jets_after_crowded crowded_fields ownsHandles_crowded
        jetAt_def eids_crowded)
qed

end
